theory Spec2Isabelle
  imports Complex_Main "HOL-Library.Multiset" "HOL-Library.Log_Nat"
begin

section \<open>Numbers and strings of the source language\<close>

text \<open>
  The sources are TypeScript. A JavaScript number is an IEEE 754 double: a finite double is
  a rational number, and the model holds it as that number (\<^typ>\<open>rat\<close>; as \<^typ>\<open>int\<close>
  or \<^typ>\<open>nat\<close> where the code only ever holds an integer). Integers below \<open>2^53\<close> are
  doubles. A quotient or a product of two doubles is the exact one rounded to the nearest
  double, a tie going to the double with the even significand (\<open>fdiv\<close>, \<open>fmul\<close>).
  \<open>Math.round\<close>, \<open>Math.floor\<close>, \<open>Math.min\<close>, \<open>Math.max\<close> and comparisons are exact.
  The widths and heights that enter the arithmetic are image dimensions (the DOM's unsigned
  32-bit \<open>naturalWidth\<close> and \<open>naturalHeight\<close>) and numbers up to \<open>MAX_DIMENSION\<close>, so
  every quotient and product lies between \<open>2^-32\<close> and \<open>2^45\<close>, far from the overflow and
  the subnormal range of a double, which the rounding below leaves out. A decimal literal
  of the source is the double nearest to it (\<open>0.85\<close> is \<^term>\<open>fl (85 / 100)\<close>).
  \<open>NaN\<close>, which only arises from an empty number field, is \<^term>\<open>None\<close>.

  A JavaScript string is modelled as \<^typ>\<open>string\<close>; every character outside ASCII is
  treated by the functions below like any other character that is not a letter or digit.
\<close>

definition js_round :: "rat \<Rightarrow> int" where
  \<comment> \<open>\<open>Math.round\<close>: the nearest integer, halves rounded up.\<close>
  "js_round x = \<lfloor>x + 1 / 2\<rfloor>"

definition js_floor :: "rat \<Rightarrow> int" where
  "js_floor x = \<lfloor>x\<rfloor>"

definition binade :: "rat \<Rightarrow> int" where
  \<comment> \<open>the exponent \<open>e\<close> of a positive number \<open>x\<close>: \<open>2^e \<le> x < 2^(e+1)\<close>
      (\<^term>\<open>bitlen n\<close> is the number of binary digits of \<open>n\<close>)\<close>
  "binade x =
     (if 1 \<le> x then bitlen \<lfloor>x\<rfloor> - 1
      else (let k = bitlen \<lfloor>1 / x\<rfloor> - 1 in if x * 2 ^ nat k = 1 then - k else - k - 1))"

definition round_half_even :: "rat \<Rightarrow> int" where
  \<comment> \<open>the nearest integer, a tie going to the even one\<close>
  "round_half_even x =
     (let n = \<lfloor>x\<rfloor>
      in if x - of_int n < 1 / 2 then n
         else if 1 / 2 < x - of_int n then n + 1
         else if even n then n else n + 1)"

definition fl :: "rat \<Rightarrow> rat" where
  \<comment> \<open>the nearest double: a significand of 53 binary digits, \<open>roundTiesToEven\<close>\<close>
  "fl x =
     (if x = 0 then 0
      else (let e = binade \<bar>x\<bar>
            in sgn x * of_int (round_half_even (\<bar>x\<bar> * 2 powi (52 - e))) * 2 powi (e - 52)))"

definition fdiv :: "rat \<Rightarrow> rat \<Rightarrow> rat" where
  \<comment> \<open>\<open>a / b\<close> on doubles, for \<open>b\<close> other than zero\<close>
  "fdiv a b = fl (a / b)"

definition fmul :: "rat \<Rightarrow> rat \<Rightarrow> rat" where
  \<comment> \<open>\<open>a * b\<close> on doubles\<close>
  "fmul a b = fl (a * b)"


section \<open>\<open>lib/utils/file.ts\<close>\<close>

definition is_ext_char :: "char \<Rightarrow> bool" where
  \<comment> \<open>the character class \<open>[^./]\<close>\<close>
  "is_ext_char c = (c \<noteq> CHR ''.'' \<and> c \<noteq> CHR ''/'')"

definition ext_match :: "string \<Rightarrow> bool" where
  \<comment> \<open>the rest of the input, from the current position, matches \<open>\.[^./]+$\<close>\<close>
  "ext_match s = (case s of [] \<Rightarrow> False
     | c # cs \<Rightarrow> c = CHR ''.'' \<and> cs \<noteq> [] \<and> list_all is_ext_char cs)"

fun getFileStem :: "string \<Rightarrow> string" where
  \<comment> \<open>\<open>fileName.replace(/\.[^./]+$/, '')\<close>: the leftmost match is cut off\<close>
  "getFileStem [] = []"
| "getFileStem (c # cs) = (if ext_match (c # cs) then [] else c # getFileStem cs)"

definition is_name_char :: "char \<Rightarrow> bool" where
  \<comment> \<open>the character class \<open>[a-z0-9-_]\<close> under the flag \<open>i\<close>\<close>
  "is_name_char c =
     (c \<in> set ''abcdefghijklmnopqrstuvwxyz'' \<or> c \<in> set ''ABCDEFGHIJKLMNOPQRSTUVWXYZ''
      \<or> c \<in> set ''0123456789'' \<or> c = CHR ''-'' \<or> c = CHR ''_'')"

definition replace_unsafe :: "string \<Rightarrow> string" where
  \<comment> \<open>\<open>.replace(/[^a-z0-9-_]/gi, '-')\<close>\<close>
  "replace_unsafe s = map (\<lambda>c. if is_name_char c then c else CHR ''-'') s"

fun collapse_dashes :: "string \<Rightarrow> string" where
  \<comment> \<open>\<open>.replace(/-+/g, '-')\<close>\<close>
  "collapse_dashes [] = []"
| "collapse_dashes [c] = [c]"
| "collapse_dashes (c # d # cs) =
     (if c = CHR ''-'' \<and> d = CHR ''-'' then collapse_dashes (d # cs)
      else c # collapse_dashes (d # cs))"

definition trim_dashes :: "string \<Rightarrow> string" where
  \<comment> \<open>\<open>.replace(/^-|-$/g, '')\<close>: one dash at the start, then one at the end of what is left\<close>
  "trim_dashes s =
     (let s1 = (case s of [] \<Rightarrow> [] | c # cs \<Rightarrow> if c = CHR ''-'' then cs else c # cs)
      in if s1 \<noteq> [] \<and> last s1 = CHR ''-'' then butlast s1 else s1)"

definition deriveStem :: "string \<Rightarrow> string" where
  \<comment> \<open>the constant \<open>stem\<close> of \<open>deriveFileName\<close>; the empty string is falsy\<close>
  "deriveStem originalName =
     (let s = trim_dashes (collapse_dashes (replace_unsafe (getFileStem originalName)))
      in if s = [] then ''processed-file'' else s)"

definition deriveFileName :: "string \<Rightarrow> string \<Rightarrow> string option \<Rightarrow> string" where
  \<comment> \<open>\<open>suffix\<close> is optional (\<^term>\<open>None\<close> is \<open>undefined\<close>); \<open>suffix ? ... : ''\<close> tests its
      truthiness, and the empty string is falsy\<close>
  "deriveFileName originalName targetExtension suffix =
     deriveStem originalName
     @ (case suffix of None \<Rightarrow> [] | Some s \<Rightarrow> if s = [] then [] else CHR ''-'' # s)
     @ CHR ''.'' # targetExtension"

fun no_dash_run :: "string \<Rightarrow> bool" where
  \<comment> \<open>no two consecutive characters are both dashes\<close>
  "no_dash_run (c # d # cs) = (\<not> (c = CHR ''-'' \<and> d = CHR ''-'') \<and> no_dash_run (d # cs))"
| "no_dash_run _ = True"


section \<open>Rendering numbers\<close>

fun digits :: "nat \<Rightarrow> string" where
  \<comment> \<open>the decimal digits of a natural number\<close>
  "digits n = (if n < 10 then [''0123456789'' ! n]
               else digits (n div 10) @ [''0123456789'' ! (n mod 10)])"

declare digits.simps [simp del]

definition int_string :: "int \<Rightarrow> string" where
  \<comment> \<open>an integer inside a template literal or \<open>join\<close>\<close>
  "int_string i = (if i < 0 then CHR ''-'' # digits (nat (- i)) else digits (nat i))"

fun join_dash :: "string list \<Rightarrow> string" where
  \<comment> \<open>\<open>Array.prototype.join('-')\<close>\<close>
  "join_dash [] = []"
| "join_dash [s] = s"
| "join_dash (s # t # ss) = s @ CHR ''-'' # join_dash (t # ss)"


section \<open>The browser, as far as the components use it\<close>

text \<open>
  Object URLs, DOM elements and cropper instances are identified by numbers handed out
  in sequence, so that each \<open>URL.createObjectURL\<close>, \<open>document.createElement\<close> and
  \<open>new Cropper\<close> yields an identity not seen before. The browser state records the object
  URLs that are live (created, not yet revoked), the children of \<open>document.body\<close>, the
  downloads triggered by clicking an anchor, the live cropper instances and the local
  key-value storage. A string in the storage is identified with the value
  \<open>JSON.parse\<close> reads from it (what \<open>JSON.stringify\<close> of that value writes), or is text
  that \<open>JSON.parse\<close> rejects. Numbers in JSON are finite.
\<close>

datatype json =
    JNull
  | JBool bool
  | JNum rat
  | JStr string
  | JArr "json list"
  | JObj "(string \<times> json) list"

datatype stored = NotJson string | Json json

record blob =
  blob_size :: nat
  blob_type :: string

record browser =
  object_urls :: "nat set"
  next_url :: nat
  body_children :: "nat list"
  next_node :: nat
  downloads :: "(nat \<times> string) list"
  live_croppers :: "nat set"
  next_cropper :: nat
  localStorage :: "string \<Rightarrow> stored option"
  storage_available :: bool

definition createObjectURL :: "browser \<Rightarrow> nat \<times> browser" where
  "createObjectURL b =
     (next_url b, b\<lparr> object_urls := insert (next_url b) (object_urls b), next_url := Suc (next_url b) \<rparr>)"

definition revokeObjectURL :: "nat \<Rightarrow> browser \<Rightarrow> browser" where
  "revokeObjectURL u b = b\<lparr> object_urls := object_urls b - {u} \<rparr>"

definition browser_wf :: "browser \<Rightarrow> bool" where
  \<comment> \<open>identities not handed out yet are not in use\<close>
  "browser_wf b =
     (object_urls b \<subseteq> {..< next_url b} \<and> set (body_children b) \<subseteq> {..< next_node b}
      \<and> live_croppers b \<subseteq> {..< next_cropper b})"


section \<open>\<open>lib/utils/download.ts\<close>\<close>

definition downloadBlob :: "blob \<Rightarrow> string \<Rightarrow> browser \<Rightarrow> browser" where
  \<comment> \<open>the anchor is created, the URL is created, the anchor is appended to the body,
      clicked, removed, and the URL is revoked\<close>
  "downloadBlob blb filename b =
     (let link = next_node b;
          b1 = b\<lparr> next_node := Suc link \<rparr>;
          url = fst (createObjectURL b1);
          b2 = snd (createObjectURL b1);
          b3 = b2\<lparr> body_children := body_children b2 @ [link] \<rparr>;
          b4 = b3\<lparr> downloads := downloads b3 @ [(url, filename)] \<rparr>;
          b5 = b4\<lparr> body_children := remove1 link (body_children b4) \<rparr>
      in revokeObjectURL url b5)"


section \<open>\<open>lib/utils/format.ts\<close>\<close>

definition UNITS :: "string list" where
  "UNITS = [''B'', ''KB'', ''MB'', ''GB'']"

function scale_units :: "rat \<Rightarrow> nat \<Rightarrow> rat \<times> nat" where
  \<comment> \<open>the \<open>while\<close> loop of \<open>formatBytes\<close>; dividing a double by 1024 is exact\<close>
  "scale_units v unitIndex =
     (if v \<ge> 1024 \<and> unitIndex < length UNITS - 1 then scale_units (v / 1024) (unitIndex + 1)
      else (v, unitIndex))"
  by pat_completeness auto
termination
  by (relation "measure (\<lambda>(v, u). length UNITS - u)") (auto simp: UNITS_def)

declare scale_units.simps [simp del]

definition pad_zeros :: "nat \<Rightarrow> string \<Rightarrow> string" where
  "pad_zeros n s = replicate (n - length s) (CHR ''0'') @ s"

definition toFixed :: "rat \<Rightarrow> nat \<Rightarrow> string" where
  \<comment> \<open>\<open>Number.prototype.toFixed\<close> of a number that is not negative and below \<open>10^21\<close>:
      the nearest multiple of \<open>10^-d\<close>, the larger one on a tie\<close>
  "toFixed v d =
     (let n = nat \<lfloor>v * 10 ^ d + 1 / 2\<rfloor>
      in if d = 0 then digits n
         else digits (n div 10 ^ d) @ ''.'' @ pad_zeros d (digits (n mod 10 ^ d)))"

definition formatBytes :: "rat \<Rightarrow> nat \<Rightarrow> string" where
  \<comment> \<open>the input is a finite number; \<open>fractionDigits\<close> defaults to 1 at the call sites\<close>
  "formatBytes input fractionDigits =
     (if input < 0 then ''0 B''
      else (case scale_units input 0 of (v, unitIndex) \<Rightarrow>
              toFixed v (if v \<ge> 10 \<or> unitIndex = 0 then 0 else fractionDigits)
              @ '' '' @ UNITS ! unitIndex))"

definition times_sign :: string where
  \<comment> \<open>the multiplication sign U+00D7, in UTF-8\<close>
  "times_sign = [char_of (195 :: nat), char_of (151 :: nat)]"

definition formatImageDimensions :: "rat \<Rightarrow> rat \<Rightarrow> string" where
  "formatImageDimensions width height =
     int_string (js_round width) @ '' '' @ times_sign @ '' '' @ int_string (js_round height)"


section \<open>The image toolkit component\<close>

text \<open>
  The component's variables are the fields of \<open>image_toolkit\<close>, together with the browser
  state the component acts on (the variable \<open>file\<close> is the field \<open>file'\<close>). \<open>targetWidth\<close> and \<open>targetHeight\<close> are \<open>number | null\<close>
  and only ever hold integers; \<open>null\<close> is \<^term>\<open>None\<close>. The original dimensions are the
  \<open>naturalWidth\<close> and \<open>naturalHeight\<close> of the decoded image. The variables that the
  settings restore assigns without checking for a string (\<open>selectedFormatValue\<close>,
  \<open>selectedPresetValue\<close>, \<open>smoothing\<close>) hold JSON values. The labels of the format and
  preset options are display text and are left out. Each handler runs to completion
  before the next one starts.
\<close>

definition MAX_FILE_SIZE_BYTES :: nat where
  "MAX_FILE_SIZE_BYTES = 50 * 1024 * 1024"

definition MAX_DIMENSION :: int where
  "MAX_DIMENSION = 8192"

definition CUSTOM_PRESET_VALUE :: string where
  "CUSTOM_PRESET_VALUE = ''custom''"

definition SETTINGS_KEY :: string where
  "SETTINGS_KEY = ''image-toolkit-settings-v1''"

datatype Mode = Resize | Crop

datatype CropShape = Square | Circle

datatype Changed = Width | Height

record FormatOption =
  fmt_value :: string
  fmt_extension :: string
  fmt_lossless :: bool

record PresetOption =
  preset_value :: string
  preset_width :: rat
  preset_height :: rat
  preset_maintainAspect :: "bool option"
  preset_shape :: "CropShape option"

definition FORMAT_OPTIONS :: "FormatOption list" where
  "FORMAT_OPTIONS =
     [ \<lparr> fmt_value = ''image/png'', fmt_extension = ''png'', fmt_lossless = True \<rparr>,
       \<lparr> fmt_value = ''image/jpeg'', fmt_extension = ''jpg'', fmt_lossless = False \<rparr>,
       \<lparr> fmt_value = ''image/webp'', fmt_extension = ''webp'', fmt_lossless = False \<rparr>,
       \<lparr> fmt_value = ''image/avif'', fmt_extension = ''avif'', fmt_lossless = False \<rparr> ]"

definition mk_preset :: "string \<Rightarrow> rat \<Rightarrow> rat \<Rightarrow> CropShape option \<Rightarrow> PresetOption" where
  \<comment> \<open>every preset of the source has \<open>maintainAspect: true\<close>\<close>
  "mk_preset v w h s =
     \<lparr> preset_value = v, preset_width = w, preset_height = h,
       preset_maintainAspect = Some True, preset_shape = s \<rparr>"

definition PRESET_OPTIONS :: "PresetOption list" where
  "PRESET_OPTIONS =
     [ mk_preset ''passport_us'' 600 600 (Some Square),
       mk_preset ''passport_sg'' 400 514 None,
       mk_preset ''avatar_instagram'' 320 320 (Some Square),
       mk_preset ''avatar_facebook'' 400 400 (Some Square),
       mk_preset ''avatar_linkedin'' 400 400 (Some Square),
       mk_preset ''avatar_twitter'' 400 400 (Some Square),
       mk_preset ''avatar_github'' 500 500 (Some Square),
       mk_preset ''avatar_tiktok'' 200 200 (Some Square) ]"

definition PRESET_LOOKUP :: "string \<Rightarrow> PresetOption option" where
  "PRESET_LOOKUP = map_of (map (\<lambda>p. (preset_value p, p)) PRESET_OPTIONS)"

record File =
  file_name :: string
  file_size :: nat
  file_type :: string

record Cropper =
  cropper_id :: nat
  cropper_aspectRatio :: "rat option"

record canvas =
  canvas_width :: int
  canvas_height :: int

record image_toolkit =
  file' :: "File option"
  objectUrl :: "nat option"
  resultUrl :: "nat option"
  resultSize :: nat
  lastBlob :: "blob option"
  lastDownloadName :: "string option"
  processing :: bool
  statusMessage :: string
  errorMessage :: string
  cropper :: "Cropper option"
  CropperCtor :: bool
  imageRef :: bool
  originalWidth :: nat
  originalHeight :: nat
  aspectRatio :: rat
  selectedFormatValue :: json
  quality :: rat
  maintainAspect :: bool
  keepAspectInResize :: bool
  lastChanged :: "Changed option"
  targetWidth :: "int option"
  targetHeight :: "int option"
  smoothing :: json
  addPrivateSuffix :: bool
  mode :: Mode
  previousMode :: Mode
  cropShape :: CropShape
  selectedPresetValue :: json
  world :: browser

text \<open>
  \<open>CropperCtor\<close> and \<open>imageRef\<close> record whether the cropping library has been imported and
  whether the preview image element is bound and complete. A cropper instance is known
  by its identity and the aspect ratio last set on it (\<^term>\<open>None\<close> is \<open>NaN\<close>, a free
  crop box); its crop box is the library's own and is not modelled, so \<open>reset\<close> and
  \<open>setData\<close> leave the model's cropper as it is.
\<close>

definition truthy :: "int option \<Rightarrow> int option" where
  \<comment> \<open>a \<open>number | null\<close> used as a condition: \<open>null\<close> and \<open>0\<close> are falsy\<close>
  "truthy x = (case x of None \<Rightarrow> None | Some v \<Rightarrow> if v = 0 then None else Some v)"

definition or_one :: "rat \<Rightarrow> rat" where
  \<comment> \<open>\<open>aspectRatio || 1\<close>\<close>
  "or_one r = (if r = 0 then 1 else r)"

definition selectedFormat :: "image_toolkit \<Rightarrow> FormatOption" where
  \<comment> \<open>the reactive declaration \<open>$: selectedFormat = FORMAT_OPTIONS.find(...) ?? FORMAT_OPTIONS[0]\<close>\<close>
  "selectedFormat st =
     (case find (\<lambda>option. JStr (fmt_value option) = selectedFormatValue st) FORMAT_OPTIONS of
        None \<Rightarrow> hd FORMAT_OPTIONS
      | Some option \<Rightarrow> option)"

definition cleanupObjectUrl :: "image_toolkit \<Rightarrow> image_toolkit" where
  "cleanupObjectUrl st =
     (case objectUrl st of
        None \<Rightarrow> st
      | Some u \<Rightarrow> st\<lparr> world := revokeObjectURL u (world st), objectUrl := None \<rparr>)"

definition cleanupResultUrl :: "image_toolkit \<Rightarrow> image_toolkit" where
  "cleanupResultUrl st =
     (case resultUrl st of
        None \<Rightarrow> st
      | Some u \<Rightarrow> st\<lparr> world := revokeObjectURL u (world st), resultUrl := None, resultSize := 0,
                      lastBlob := None, lastDownloadName := None \<rparr>)"

definition destroyCropper :: "image_toolkit \<Rightarrow> image_toolkit" where
  "destroyCropper st =
     (case cropper st of
        None \<Rightarrow> st
      | Some c \<Rightarrow> st\<lparr> world := (world st)\<lparr> live_croppers := live_croppers (world st) - {cropper_id c} \<rparr>,
                      cropper := None \<rparr>)"

definition new_cropper :: "rat option \<Rightarrow> image_toolkit \<Rightarrow> image_toolkit" where
  \<comment> \<open>\<open>cropper = new CropperCtor(imageRef, { ..., aspectRatio })\<close>\<close>
  "new_cropper ratio st =
     st\<lparr> world := (world st)\<lparr> live_croppers := insert (next_cropper (world st)) (live_croppers (world st)),
                              next_cropper := Suc (next_cropper (world st)) \<rparr>,
         cropper := Some \<lparr> cropper_id = next_cropper (world st), cropper_aspectRatio = ratio \<rparr> \<rparr>"

definition initialiseCropper :: "image_toolkit \<Rightarrow> image_toolkit" where
  "initialiseCropper st =
     (if \<not> CropperCtor st \<or> \<not> imageRef st then st
      else new_cropper (if maintainAspect st then Some (or_one (aspectRatio st)) else None)
             (destroyCropper st))"

definition onDestroy :: "image_toolkit \<Rightarrow> image_toolkit" where
  "onDestroy st = cleanupResultUrl (cleanupObjectUrl (destroyCropper st))"

definition resetState :: "image_toolkit \<Rightarrow> image_toolkit" where
  "resetState st =
     (cleanupResultUrl (cleanupObjectUrl (destroyCropper st)))
       \<lparr> file' := None, statusMessage := [], errorMessage := [], originalWidth := 0,
         originalHeight := 0, aspectRatio := 1, targetWidth := None, targetHeight := None,
         maintainAspect := True, keepAspectInResize := True, lastChanged := None,
         cropShape := Square, selectedPresetValue := JStr CUSTOM_PRESET_VALUE \<rparr>"

definition setAspectRatio :: "rat option \<Rightarrow> image_toolkit \<Rightarrow> image_toolkit" where
  \<comment> \<open>\<open>if (cropper) cropper.setAspectRatio(r)\<close>\<close>
  "setAspectRatio r st =
     (case cropper st of
        None \<Rightarrow> st
      | Some c \<Rightarrow> st\<lparr> cropper := Some (c\<lparr> cropper_aspectRatio := r \<rparr>) \<rparr>)"

definition alignTargetDimensionsToAspect :: "Changed option \<Rightarrow> image_toolkit \<Rightarrow> image_toolkit" where
  "alignTargetDimensionsToAspect changed st =
     (if mode st \<noteq> Crop \<or> \<not> maintainAspect st then st
      else
        (let st1 =
           (case (truthy (targetWidth st), truthy (targetHeight st)) of
              (Some width, Some height) \<Rightarrow>
                 (let nextRatio = fdiv (of_int width) (of_int height)
                  in if nextRatio > 0 then st\<lparr> aspectRatio := nextRatio \<rparr> else st)
            | (Some width, None) \<Rightarrow>
                 if changed = Some Width \<and> aspectRatio st \<noteq> 0
                 then st\<lparr> targetHeight := Some (max 1 (js_round (fdiv (of_int width) (aspectRatio st)))) \<rparr>
                 else st
            | (None, Some height) \<Rightarrow>
                 if changed = Some Height \<and> aspectRatio st \<noteq> 0
                 then st\<lparr> targetWidth := Some (max 1 (js_round (fmul (of_int height) (aspectRatio st)))) \<rparr>
                 else st
            | (None, None) \<Rightarrow> st)
         in setAspectRatio (Some (or_one (aspectRatio st1))) st1))"

definition src_ratio :: "image_toolkit \<Rightarrow> rat" where
  \<comment> \<open>the constant \<open>srcRatio\<close> of \<open>alignResizeDimensionsToAspect\<close>, from
      \<open>srcW = originalWidth || 1\<close> and \<open>srcH = originalHeight || 1\<close>\<close>
  "src_ratio st =
     (let srcW = (if originalWidth st = 0 then 1 else originalWidth st);
          srcH = (if originalHeight st = 0 then 1 else originalHeight st)
      in fdiv (of_nat srcW) (of_nat srcH))"

definition alignResizeDimensionsToAspect :: "Changed option \<Rightarrow> image_toolkit \<Rightarrow> image_toolkit" where
  "alignResizeDimensionsToAspect changed st =
     (if mode st \<noteq> Resize \<or> \<not> keepAspectInResize st then st
      else
        (let srcRatio = src_ratio st;
             st1 =
               (case (truthy (targetWidth st), truthy (targetHeight st)) of
                  (Some width, None) \<Rightarrow>
                     st\<lparr> targetHeight := Some (max 1 (js_round (fdiv (of_int width) srcRatio))) \<rparr>
                | (None, Some height) \<Rightarrow>
                     st\<lparr> targetWidth := Some (max 1 (js_round (fmul (of_int height) srcRatio))) \<rparr>
                | (Some width, Some height) \<Rightarrow>
                     if changed = Some Height
                     then st\<lparr> targetWidth := Some (max 1 (js_round (fmul (of_int height) srcRatio))) \<rparr>
                     else st\<lparr> targetHeight := Some (max 1 (js_round (fdiv (of_int width) srcRatio))) \<rparr>
                | (None, None) \<Rightarrow> st);
             st2 =
               (case truthy (targetWidth st1) of
                  None \<Rightarrow> st1
                | Some w \<Rightarrow>
                    if w > MAX_DIMENSION
                    then st1\<lparr> targetWidth := Some MAX_DIMENSION,
                              targetHeight := Some (max 1 (js_round (fdiv (of_int MAX_DIMENSION) srcRatio))) \<rparr>
                    else st1);
             st3 =
               (case truthy (targetHeight st2) of
                  None \<Rightarrow> st2
                | Some h \<Rightarrow>
                    if h > MAX_DIMENSION
                    then st2\<lparr> targetHeight := Some MAX_DIMENSION,
                              targetWidth := Some (max 1 (js_round (fmul (of_int MAX_DIMENSION) srcRatio))) \<rparr>
                    else st2)
         in st3))"

definition crop_mode_sync :: "image_toolkit \<Rightarrow> image_toolkit" where
  \<comment> \<open>the block \<open>if (mode === 'crop') { if (maintainAspect) align...(); if (cropper) {...} }\<close>
      shared by \<open>applyCropShape\<close> and \<open>applyPresetDimensions\<close>\<close>
  "crop_mode_sync st =
     (if mode st = Crop then
        (let st1 = (if maintainAspect st then alignTargetDimensionsToAspect None st else st)
         in setAspectRatio (if maintainAspect st1 then Some (or_one (aspectRatio st1)) else None) st1)
      else st)"

definition applyCropShape :: "CropShape \<Rightarrow> image_toolkit \<Rightarrow> image_toolkit" where
  "applyCropShape shape st =
     (let st1 = st\<lparr> cropShape := shape \<rparr>;
          st2 =
            (if shape = Circle then
               (let widthCandidate = (case targetWidth st1 of None \<Rightarrow> int (originalWidth st1) | Some w \<Rightarrow> w);
                    heightCandidate = (case targetHeight st1 of None \<Rightarrow> int (originalHeight st1) | Some h \<Rightarrow> h);
                    sz = max 1 (min widthCandidate heightCandidate)
                in st1\<lparr> maintainAspect := True, targetWidth := Some sz, targetHeight := Some sz,
                         aspectRatio := 1 \<rparr>)
             else st1)
      in crop_mode_sync st2)"

definition startsWith :: "string \<Rightarrow> string \<Rightarrow> bool" where
  "startsWith s t = (take (length t) s = t)"

definition applyPresetDimensions :: "PresetOption \<Rightarrow> image_toolkit \<Rightarrow> image_toolkit" where
  "applyPresetDimensions preset st =
     (let st1 = st\<lparr> selectedPresetValue := JStr (preset_value preset) \<rparr>;
          w0 = max 1 (js_round (preset_width preset));
          h0 = max 1 (js_round (preset_height preset));
          scale = min (fdiv (of_int MAX_DIMENSION) (of_int w0)) (fdiv (of_int MAX_DIMENSION) (of_int h0));
          w = (if w0 > MAX_DIMENSION \<or> h0 > MAX_DIMENSION then max 1 (js_floor (fmul (of_int w0) scale)) else w0);
          h = (if w0 > MAX_DIMENSION \<or> h0 > MAX_DIMENSION then max 1 (js_floor (fmul (of_int h0) scale)) else h0);
          st2 = st1\<lparr> targetWidth := Some w, targetHeight := Some h \<rparr>;
          presetRatio = fdiv (of_int w) (of_int h);
          st3 = (if presetRatio > 0 then st2\<lparr> aspectRatio := presetRatio \<rparr> else st2);
          st4 =
            (if startsWith (preset_value preset) ''passport_''
             then st3\<lparr> selectedFormatValue := JStr ''image/jpeg'', mode := Crop,
                       maintainAspect := True, cropShape := Square \<rparr>
             else
               (let st3a = st3\<lparr> maintainAspect :=
                                  (case preset_maintainAspect preset of None \<Rightarrow> True | Some m \<Rightarrow> m) \<rparr>
                in if preset_shape preset = None \<and> cropShape st3a = Circle
                   then applyCropShape Square st3a else st3a));
          st5 = (case preset_shape preset of None \<Rightarrow> st4 | Some shape \<Rightarrow> applyCropShape shape st4);
          st6 = (if mode st5 = Resize \<and> keepAspectInResize st5
                 then alignResizeDimensionsToAspect None st5 else st5)
      in crop_mode_sync st6)"

definition onPresetSelect :: "string \<Rightarrow> image_toolkit \<Rightarrow> image_toolkit" where
  \<comment> \<open>the argument is the value of the select element\<close>
  "onPresetSelect v st =
     (if v = CUSTOM_PRESET_VALUE then st\<lparr> selectedPresetValue := JStr CUSTOM_PRESET_VALUE \<rparr>
      else (case PRESET_LOOKUP v of
              None \<Rightarrow> st\<lparr> selectedPresetValue := JStr CUSTOM_PRESET_VALUE \<rparr>
            | Some preset \<Rightarrow> applyPresetDimensions preset st))"

definition input_value :: "rat option \<Rightarrow> int option" where
  \<comment> \<open>\<open>nextValue\<close> of the two input handlers, from \<open>input.valueAsNumber\<close>
      (\<^term>\<open>None\<close> is \<open>NaN\<close>, the value of an empty or malformed field)\<close>
  "input_value v =
     (case v of
        None \<Rightarrow> None
      | Some x \<Rightarrow> if js_round x > 0 then Some (min (js_round x) MAX_DIMENSION) else None)"

definition handleTargetWidthInput :: "rat option \<Rightarrow> image_toolkit \<Rightarrow> image_toolkit" where
  "handleTargetWidthInput v st =
     (let st1 = st\<lparr> targetWidth := input_value v,
                    selectedPresetValue := JStr CUSTOM_PRESET_VALUE, lastChanged := Some Width \<rparr>;
          st2 = (if mode st1 = Crop then alignTargetDimensionsToAspect (Some Width) st1 else st1)
      in if mode st2 = Resize \<and> keepAspectInResize st2
         then alignResizeDimensionsToAspect (Some Width) st2 else st2)"

definition handleTargetHeightInput :: "rat option \<Rightarrow> image_toolkit \<Rightarrow> image_toolkit" where
  "handleTargetHeightInput v st =
     (let st1 = st\<lparr> targetHeight := input_value v,
                    selectedPresetValue := JStr CUSTOM_PRESET_VALUE, lastChanged := Some Height \<rparr>;
          st2 = (if mode st1 = Crop then alignTargetDimensionsToAspect (Some Height) st1 else st1)
      in if mode st2 = Resize \<and> keepAspectInResize st2
         then alignResizeDimensionsToAspect (Some Height) st2 else st2)"

definition resetSizing :: "image_toolkit \<Rightarrow> image_toolkit" where
  "resetSizing st =
     (let st1 = st\<lparr> targetWidth := Some (int (originalWidth st)),
                    targetHeight := Some (int (originalHeight st)),
                    maintainAspect := True, keepAspectInResize := True,
                    selectedPresetValue := JStr CUSTOM_PRESET_VALUE, lastChanged := None \<rparr>;
          st2 = (if originalWidth st1 \<noteq> 0 \<and> originalHeight st1 \<noteq> 0
                 then st1\<lparr> aspectRatio := fdiv (of_nat (originalWidth st1)) (of_nat (originalHeight st1)) \<rparr>
                 else st1);
          st3 = (if aspectRatio st2 \<noteq> 0 then setAspectRatio (Some (aspectRatio st2)) st2 else st2);
          st4 = (if mode st3 = Crop then alignTargetDimensionsToAspect None st3 else st3)
      in if mode st4 = Resize \<and> keepAspectInResize st4
         then alignResizeDimensionsToAspect None st4 else st4)"

definition onKeepResizeAspectToggle :: "bool \<Rightarrow> image_toolkit \<Rightarrow> image_toolkit" where
  "onKeepResizeAspectToggle checked st =
     (let st1 = st\<lparr> keepAspectInResize := checked \<rparr>
      in if mode st1 = Resize \<and> keepAspectInResize st1
         then alignResizeDimensionsToAspect
                (Some (case lastChanged st1 of None \<Rightarrow> Width | Some c \<Rightarrow> c)) st1
         else st1)"

definition onMaintainAspectToggle :: "bool \<Rightarrow> image_toolkit \<Rightarrow> image_toolkit" where
  "onMaintainAspectToggle nextValue st =
     (let st1 = st\<lparr> maintainAspect := nextValue \<rparr>
      in if mode st1 \<noteq> Crop \<or> \<not> maintainAspect st1 then st1
         else
           (let width = (case targetWidth st1 of None \<Rightarrow> int (originalWidth st1) | Some w \<Rightarrow> w);
                height = (case targetHeight st1 of None \<Rightarrow> int (originalHeight st1) | Some h \<Rightarrow> h);
                st2 = (if width \<noteq> 0 \<and> height \<noteq> 0
                       then st1\<lparr> aspectRatio := fdiv (of_int width) (of_int height) \<rparr> else st1)
            in alignTargetDimensionsToAspect None st2))"

definition fit_scale :: "nat \<Rightarrow> nat \<Rightarrow> rat" where
  \<comment> \<open>\<open>Math.min(MAX_DIMENSION / width, MAX_DIMENSION / height)\<close>; a quotient by zero is
      \<open>Infinity\<close> in the source, so the other quotient is the minimum\<close>
  "fit_scale width height =
     (if height = 0 then fdiv (of_int MAX_DIMENSION) (of_nat width)
      else if width = 0 then fdiv (of_int MAX_DIMENSION) (of_nat height)
      else min (fdiv (of_int MAX_DIMENSION) (of_nat width)) (fdiv (of_int MAX_DIMENSION) (of_nat height)))"

definition useFullImage :: "image_toolkit \<Rightarrow> image_toolkit" where
  "useFullImage st =
     (if mode st \<noteq> Crop then st
      else if originalWidth st = 0 \<or> originalHeight st = 0 then st
      else
        (let st1 = setAspectRatio None st;
             exceeds = (int (originalWidth st1) > MAX_DIMENSION \<or> int (originalHeight st1) > MAX_DIMENSION);
             scale = fit_scale (originalWidth st1) (originalHeight st1);
             st2 =
               (if exceeds
                then st1\<lparr> targetWidth := Some (js_floor (fmul (of_nat (originalWidth st1)) scale)),
                          targetHeight := Some (js_floor (fmul (of_nat (originalHeight st1)) scale)) \<rparr>
                else st1\<lparr> targetWidth := Some (int (originalWidth st1)),
                          targetHeight := Some (int (originalHeight st1)) \<rparr>);
             originalRatio = fdiv (of_nat (originalWidth st2)) (of_nat (originalHeight st2));
             st3 = (if originalRatio > 0 then st2\<lparr> aspectRatio := originalRatio \<rparr> else st2);
             st4 = (if maintainAspect st3 then alignTargetDimensionsToAspect None st3 else st3)
         in st4\<lparr> selectedPresetValue := JStr CUSTOM_PRESET_VALUE \<rparr>))"

definition middle_dot :: string where
  \<comment> \<open>the middle dot U+00B7, in UTF-8\<close>
  "middle_dot = [char_of (194 :: nat), char_of (183 :: nat)]"

definition handleFileSelection ::
  "File option \<Rightarrow> (nat \<times> nat) option \<Rightarrow> image_toolkit \<Rightarrow> image_toolkit" where
  \<comment> \<open>the second argument is what \<open>measureImage\<close> finds for the candidate: the natural
      width and height, or \<^term>\<open>None\<close> when the image cannot be decoded\<close>
  "handleFileSelection candidate measured st =
     (case candidate of
        None \<Rightarrow> st
      | Some c \<Rightarrow>
          if file_size c > MAX_FILE_SIZE_BYTES then
            (resetState st)\<lparr> errorMessage :=
               ''File is '' @ formatBytes (of_nat (file_size c)) 1
               @ ''. Please keep images under '' @ formatBytes (of_nat MAX_FILE_SIZE_BYTES) 1 @ ''.'' \<rparr>
          else
            (let st1 = (resetState st)
                   \<lparr> file' := Some c, addPrivateSuffix := True,
                     selectedFormatValue := JStr (fmt_value (hd FORMAT_OPTIONS)),
                     quality := fl (85 / 100), smoothing := JStr ''high'',
                     statusMessage := ''Image loaded. Adjust settings as needed.'',
                     selectedPresetValue := JStr CUSTOM_PRESET_VALUE \<rparr>;
                 st2 = st1\<lparr> objectUrl := Some (fst (createObjectURL (world st1))),
                            world := snd (createObjectURL (world st1)) \<rparr>
             in case measured of
                  None \<Rightarrow> cleanupObjectUrl (st2\<lparr> errorMessage := ''Unable to read image dimensions'' \<rparr>)
                | Some (width, height) \<Rightarrow>
                    (let st3 = st2\<lparr> originalWidth := width, originalHeight := height,
                                    aspectRatio := (if width \<noteq> 0 \<and> height \<noteq> 0
                                                    then fdiv (of_nat width) (of_nat height) else 1) \<rparr>;
                         scale = fit_scale width height;
                         st4 =
                           (if int width > MAX_DIMENSION \<or> int height > MAX_DIMENSION
                            then st3\<lparr> targetWidth := Some (js_floor (fmul (of_nat width) scale)),
                                      targetHeight := Some (js_floor (fmul (of_nat height) scale)),
                                      statusMessage := ''Image scaled down for safety '' @ middle_dot
                                        @ '' output capped at '' @ int_string MAX_DIMENSION @ ''px'' \<rparr>
                            else st3\<lparr> targetWidth := Some (int width), targetHeight := Some (int height) \<rparr>)
                     in if mode st4 = Resize \<and> keepAspectInResize st4
                        then alignResizeDimensionsToAspect None st4 else st4)))"


definition mode_reaction :: "image_toolkit \<Rightarrow> image_toolkit" where
  \<comment> \<open>the reactive block that runs when \<open>mode\<close> differs from \<open>previousMode\<close>\<close>
  "mode_reaction st =
     (if mode st \<noteq> previousMode st then
        (let st1 =
           (if mode st \<noteq> Crop then destroyCropper st
            else
              (let st0 =
                 (case (truthy (targetWidth st), truthy (targetHeight st)) of
                    (Some w, Some h) \<Rightarrow>
                       if fdiv (of_int w) (of_int h) > 0 then st\<lparr> aspectRatio := fdiv (of_int w) (of_int h) \<rparr> else st
                  | _ \<Rightarrow>
                       if originalWidth st \<noteq> 0 \<and> originalHeight st \<noteq> 0
                       then st\<lparr> aspectRatio := fdiv (of_nat (originalWidth st)) (of_nat (originalHeight st)) \<rparr>
                       else st)
               in alignTargetDimensionsToAspect None st0))
         in st1\<lparr> previousMode := mode st1 \<rparr>)
      else st)"


subsection \<open>Settings in local storage\<close>

definition mode_string :: "Mode \<Rightarrow> string" where
  "mode_string m = (case m of Resize \<Rightarrow> ''resize'' | Crop \<Rightarrow> ''crop'')"

definition settings_json :: "image_toolkit \<Rightarrow> json" where
  \<comment> \<open>the object literal handed to \<open>JSON.stringify\<close>\<close>
  "settings_json st =
     JObj [ (''selectedFormatValue'', selectedFormatValue st),
            (''quality'', JNum (quality st)),
            (''selectedPresetValue'', selectedPresetValue st),
            (''mode'', JStr (mode_string (mode st))),
            (''smoothing'', smoothing st),
            (''keepAspectInResize'', JBool (keepAspectInResize st)) ]"

definition persistSettings :: "image_toolkit \<Rightarrow> image_toolkit" where
  \<comment> \<open>the reactive block \<open>try { localStorage.setItem(SETTINGS_KEY, ...) } catch {}\<close>;
      a storage that is not available throws, which is ignored\<close>
  "persistSettings st =
     (if storage_available (world st)
      then st\<lparr> world := (world st)\<lparr> localStorage :=
                  (localStorage (world st))(SETTINGS_KEY \<mapsto> Json (settings_json st)) \<rparr> \<rparr>
      else st)"

definition json_truthy :: "json \<Rightarrow> bool" where
  "json_truthy j =
     (case j of JNull \<Rightarrow> False | JBool b \<Rightarrow> b | JNum n \<Rightarrow> n \<noteq> 0 | JStr s \<Rightarrow> s \<noteq> []
      | JArr _ \<Rightarrow> True | JObj _ \<Rightarrow> True)"

text \<open>
  The six conditional assignments of the settings restore, in the order of the source;
  the first argument is the parsed object \<open>s\<close>, a missing property is \<open>undefined\<close>.
\<close>

definition restore_format :: "(string \<Rightarrow> json option) \<Rightarrow> image_toolkit \<Rightarrow> image_toolkit" where
  "restore_format s st =
     (case s ''selectedFormatValue'' of
        Some v \<Rightarrow> if json_truthy v then st\<lparr> selectedFormatValue := v \<rparr> else st
      | None \<Rightarrow> st)"

definition restore_quality :: "(string \<Rightarrow> json option) \<Rightarrow> image_toolkit \<Rightarrow> image_toolkit" where
  "restore_quality s st = (case s ''quality'' of Some (JNum q) \<Rightarrow> st\<lparr> quality := q \<rparr> | _ \<Rightarrow> st)"

definition restore_preset :: "(string \<Rightarrow> json option) \<Rightarrow> image_toolkit \<Rightarrow> image_toolkit" where
  "restore_preset s st =
     (case s ''selectedPresetValue'' of
        Some v \<Rightarrow> if json_truthy v then st\<lparr> selectedPresetValue := v \<rparr> else st
      | None \<Rightarrow> st)"

definition restore_mode :: "(string \<Rightarrow> json option) \<Rightarrow> image_toolkit \<Rightarrow> image_toolkit" where
  "restore_mode s st =
     (case s ''mode'' of
        Some (JStr m) \<Rightarrow>
          if m = ''resize'' then st\<lparr> mode := Resize \<rparr>
          else if m = ''crop'' then st\<lparr> mode := Crop \<rparr> else st
      | _ \<Rightarrow> st)"

definition restore_smoothing :: "(string \<Rightarrow> json option) \<Rightarrow> image_toolkit \<Rightarrow> image_toolkit" where
  "restore_smoothing s st =
     (case s ''smoothing'' of
        Some v \<Rightarrow> if json_truthy v then st\<lparr> smoothing := v \<rparr> else st
      | None \<Rightarrow> st)"

definition restore_keep :: "(string \<Rightarrow> json option) \<Rightarrow> image_toolkit \<Rightarrow> image_toolkit" where
  "restore_keep s st =
     (case s ''keepAspectInResize'' of
        Some (JBool b) \<Rightarrow> st\<lparr> keepAspectInResize := b \<rparr>
      | _ \<Rightarrow> st)"

definition restore_fields :: "(string \<Rightarrow> json option) \<Rightarrow> image_toolkit \<Rightarrow> image_toolkit" where
  "restore_fields s st =
     restore_keep s (restore_smoothing s (restore_mode s (restore_preset s
       (restore_quality s (restore_format s st)))))"

definition restoreSettings :: "image_toolkit \<Rightarrow> image_toolkit" where
  \<comment> \<open>the \<open>try\<close> block of \<open>onMount\<close>: a missing or empty item, text that does not parse,
      and a parsed \<open>null\<close> (whose property access throws) restore nothing; a parsed
      number, string, Boolean or array has none of the six properties\<close>
  "restoreSettings st =
     (if \<not> storage_available (world st) then st
      else
        (case localStorage (world st) SETTINGS_KEY of
           None \<Rightarrow> st
         | Some (NotJson _) \<Rightarrow> st
         | Some (Json (JObj props)) \<Rightarrow> restore_fields (map_of props) st
         | Some (Json _) \<Rightarrow> st))"


subsection \<open>Producing the result\<close>

text \<open>
  What the browser and the cropping library answer while a result is produced: whether
  the preview image element is complete, whether the fallback image loads, whether
  \<open>getCroppedCanvas\<close> returns a canvas, whether each \<open>getContext('2d')\<close> returns a context,
  and the blob \<open>canvas.toBlob\<close> passes to its callback for a canvas, a MIME type and a
  quality (\<^term>\<open>None\<close> is \<open>null\<close>: the browser cannot encode the format). A canvas is
  known by its dimensions. A function that can throw returns the message of the error
  (\<^term>\<open>Inl\<close>) or its value, together with the state it leaves.
\<close>

record env =
  env_image_complete :: bool
  env_image_loads :: bool
  env_cropped_canvas :: bool
  env_context_original :: bool
  env_context_stretch :: bool
  env_context_mask :: bool
  env_toBlob :: "canvas \<Rightarrow> string \<Rightarrow> rat option \<Rightarrow> blob option"

definition loadOrientedImageElement :: "env \<Rightarrow> image_toolkit \<Rightarrow> (string + unit) \<times> image_toolkit" where
  "loadOrientedImageElement e st =
     (if imageRef st \<and> env_image_complete e then (Inr (), st)
      else
        (let fallbackObjectUrl =
               (case objectUrl st of Some u \<Rightarrow> None | None \<Rightarrow> Some (fst (createObjectURL (world st))));
             st1 = (case objectUrl st of Some u \<Rightarrow> st
                    | None \<Rightarrow> st\<lparr> world := snd (createObjectURL (world st)) \<rparr>)
         in if \<not> env_image_loads e then (Inl ''Failed to load image for resizing'', st1)
            else (Inr (), case fallbackObjectUrl of None \<Rightarrow> st1
                          | Some u \<Rightarrow> st1\<lparr> world := revokeObjectURL u (world st1) \<rparr>)))"

definition canvasFromOriginal :: "env \<Rightarrow> int \<Rightarrow> int \<Rightarrow> image_toolkit \<Rightarrow> (string + canvas) \<times> image_toolkit" where
  "canvasFromOriginal e width height st =
     (case file' st of
        None \<Rightarrow> (Inl ''No image loaded'', st)
      | Some f \<Rightarrow>
          (case loadOrientedImageElement e st of
             (Inl m, st1) \<Rightarrow> (Inl m, st1)
           | (Inr _, st1) \<Rightarrow>
               if \<not> env_context_original e then (Inl ''Failed to create drawing context'', st1)
               else (Inr \<lparr> canvas_width = width, canvas_height = height \<rparr>, st1)))"

definition canvasViaCropperFullFrame :: "env \<Rightarrow> int \<Rightarrow> int \<Rightarrow> image_toolkit \<Rightarrow> (string + canvas) \<times> image_toolkit" where
  "canvasViaCropperFullFrame e width height st =
     (if \<not> CropperCtor st \<or> \<not> imageRef st then canvasFromOriginal e width height st
      else
        (let tempCreated = (cropper st = None);
             st1 = (if tempCreated then new_cropper None st else st);
             st2 = setAspectRatio None st1
         in if \<not> env_cropped_canvas e then (Inl ''Unable to prepare canvas in this browser.'', st2)
            else (Inr \<lparr> canvas_width = width, canvas_height = height \<rparr>,
                  if tempCreated then destroyCropper st2 else st2)))"

definition maskCanvasToCircle :: "env \<Rightarrow> canvas \<Rightarrow> bool \<Rightarrow> string + canvas" where
  "maskCanvasToCircle e input fillBackground =
     (if \<not> env_context_mask e then Inl ''Failed to apply circular mask''
      else Inr \<lparr> canvas_width = canvas_width input, canvas_height = canvas_height input \<rparr>)"

definition canvasToBlob :: "env \<Rightarrow> canvas \<Rightarrow> string \<Rightarrow> rat option \<Rightarrow> string + blob" where
  "canvasToBlob e cv type qualityOption =
     (case env_toBlob e cv type qualityOption of
        None \<Rightarrow> Inl ''Browser could not encode the requested format.''
      | Some b \<Rightarrow> Inr b)"

definition stretchCanvas :: "env \<Rightarrow> canvas \<Rightarrow> int \<Rightarrow> int \<Rightarrow> string + canvas" where
  "stretchCanvas e src width height =
     (if \<not> env_context_stretch e then Inl ''Failed to create drawing context''
      else Inr \<lparr> canvas_width = width, canvas_height = height \<rparr>)"

definition make_canvas :: "env \<Rightarrow> int \<Rightarrow> int \<Rightarrow> image_toolkit \<Rightarrow> (string + canvas) \<times> image_toolkit" where
  \<comment> \<open>the first part of the \<open>try\<close> block of \<open>generateResult\<close>, up to the circular mask\<close>
  "make_canvas e width height st =
     (case
        (if mode st = Crop then
           (case cropper st of
              None \<Rightarrow> (Inl ''Cropper is still initialising. Please try again in a moment.'', st)
            | Some c \<Rightarrow>
                (let st1 =
                   (case (maintainAspect st, truthy (targetWidth st), truthy (targetHeight st)) of
                      (True, Some tw, Some th) \<Rightarrow>
                         if fdiv (of_int tw) (of_int th) > 0
                         then setAspectRatio (Some (fdiv (of_int tw) (of_int th)))
                                (st\<lparr> aspectRatio := fdiv (of_int tw) (of_int th) \<rparr>)
                         else st
                    | _ \<Rightarrow> st)
                 in if env_cropped_canvas e
                    then (Inr \<lparr> canvas_width = width, canvas_height = height \<rparr>, st1)
                    else (Inl ''Unable to crop image in this browser.'', st1)))
         else if keepAspectInResize st then canvasViaCropperFullFrame e width height st
         else
           (case canvasViaCropperFullFrame e (min (int (originalWidth st)) MAX_DIMENSION)
                   (min (int (originalHeight st)) MAX_DIMENSION) st of
              (Inl m, st1) \<Rightarrow> (Inl m, st1)
            | (Inr base, st1) \<Rightarrow> (stretchCanvas e base width height, st1)))
      of
        (Inl m, st1) \<Rightarrow> (Inl m, st1)
      | (Inr cv, st1) \<Rightarrow>
          if mode st1 = Crop \<and> cropShape st1 = Circle
          then (maskCanvasToCircle e cv (fmt_value (selectedFormat st1) = ''image/jpeg''), st1)
          else (Inr cv, st1))"

fun includes' :: "string \<Rightarrow> string \<Rightarrow> bool" where
  \<comment> \<open>\<open>String.prototype.includes\<close>\<close>
  "includes' [] t = (t = [])"
| "includes' (c # cs) t = (startsWith (c # cs) t \<or> includes' cs t)"

definition ellipsis :: string where
  \<comment> \<open>the horizontal ellipsis U+2026, in UTF-8\<close>
  "ellipsis = [char_of (226 :: nat), char_of (128 :: nat), char_of (166 :: nat)]"

definition bullet :: string where
  \<comment> \<open>the bullet U+2022, in UTF-8\<close>
  "bullet = [char_of (226 :: nat), char_of (128 :: nat), char_of (162 :: nat)]"

definition generate_prepare :: "bool \<Rightarrow> image_toolkit \<Rightarrow> image_toolkit" where
  \<comment> \<open>\<open>generateResult\<close> from the reset of the messages to the aspect alignment before
      the \<open>try\<close> block\<close>
  "generate_prepare downloadNow st =
     (let st1 = st\<lparr> errorMessage := [], statusMessage := ''Processing'' @ ellipsis,
                    processing := True \<rparr>;
          st2 = (if downloadNow then cleanupResultUrl st1 else st1)
      in if mode st2 = Resize \<and> keepAspectInResize st2
         then alignResizeDimensionsToAspect
                (Some (case lastChanged st2 of None \<Rightarrow> Width | Some c \<Rightarrow> c)) st2
         else st2)"

definition output_width :: "image_toolkit \<Rightarrow> int" where
  \<comment> \<open>\<open>Math.max(1, targetWidth ?? originalWidth)\<close>\<close>
  "output_width st = max 1 (case targetWidth st of None \<Rightarrow> int (originalWidth st) | Some w \<Rightarrow> w)"

definition output_height :: "image_toolkit \<Rightarrow> int" where
  "output_height st = max 1 (case targetHeight st of None \<Rightarrow> int (originalHeight st) | Some h \<Rightarrow> h)"

definition quality_option :: "image_toolkit \<Rightarrow> rat option" where
  \<comment> \<open>\<open>selectedFormat.lossless ? undefined : quality\<close>\<close>
  "quality_option st = (if fmt_lossless (selectedFormat st) then None else Some (quality st))"

definition caught :: "string \<Rightarrow> image_toolkit \<Rightarrow> image_toolkit" where
  \<comment> \<open>the \<open>catch\<close> block of \<open>generateResult\<close>, for an error with the given message,
      followed by the \<open>finally\<close> block\<close>
  "caught message st =
     st\<lparr> errorMessage :=
           (if fmt_value (selectedFormat st) = ''image/avif'' \<and> includes' message ''encode''
            then ''This browser cannot export AVIF yet. Try Chrome 120+ or pick WEBP/JPEG.''
            else message),
         statusMessage := [], processing := False \<rparr>"

definition generateResult :: "bool \<Rightarrow> env \<Rightarrow> image_toolkit \<Rightarrow> image_toolkit" where
  "generateResult downloadNow e st =
     (case file' st of
        None \<Rightarrow> st\<lparr> errorMessage := ''Select an image first.'' \<rparr>
      | Some f \<Rightarrow>
          (let st3 = generate_prepare downloadNow st
           in case make_canvas e (output_width st3) (output_height st3) st3 of
                (Inl message, st4) \<Rightarrow> caught message st4
              | (Inr cv, st4) \<Rightarrow>
                 (case canvasToBlob e cv (fmt_value (selectedFormat st4)) (quality_option st4) of
                    Inl message \<Rightarrow> caught message st4
                  | Inr blb \<Rightarrow>
                     (let st5 = cleanupResultUrl (st4\<lparr> lastBlob := Some blb, resultSize := blob_size blb \<rparr>);
                          st6 = st5\<lparr> resultUrl := Some (fst (createObjectURL (world st5))),
                                     world := snd (createObjectURL (world st5)) \<rparr>;
                          name = deriveFileName (file_name f) (fmt_extension (selectedFormat st6))
                                   (if addPrivateSuffix st6 then Some ''private'' else None);
                          st7 = st6\<lparr> statusMessage :=
                                       ''Ready '' @ middle_dot @ '' '' @ formatBytes (of_nat (blob_size blb)) 1
                                       @ '' '' @ bullet @ '' ''
                                       @ formatImageDimensions (of_int (canvas_width cv)) (of_int (canvas_height cv)),
                                     lastDownloadName := Some name \<rparr>;
                          st8 = (if downloadNow then st7\<lparr> world := downloadBlob blb name (world st7) \<rparr> else st7)
                      in st8\<lparr> processing := False \<rparr>))))"

definition same_but_settings :: "image_toolkit \<Rightarrow> image_toolkit \<Rightarrow> bool" where
  \<comment> \<open>two states agree on every variable of the component that is not one of the six
      persisted settings\<close>
  "same_but_settings st st' =
     (file' st' = file' st \<and> objectUrl st' = objectUrl st \<and> resultUrl st' = resultUrl st
      \<and> resultSize st' = resultSize st \<and> lastBlob st' = lastBlob st
      \<and> lastDownloadName st' = lastDownloadName st \<and> processing st' = processing st
      \<and> statusMessage st' = statusMessage st \<and> errorMessage st' = errorMessage st
      \<and> cropper st' = cropper st \<and> CropperCtor st' = CropperCtor st \<and> imageRef st' = imageRef st
      \<and> originalWidth st' = originalWidth st \<and> originalHeight st' = originalHeight st
      \<and> aspectRatio st' = aspectRatio st \<and> maintainAspect st' = maintainAspect st
      \<and> lastChanged st' = lastChanged st \<and> targetWidth st' = targetWidth st
      \<and> targetHeight st' = targetHeight st \<and> addPrivateSuffix st' = addPrivateSuffix st
      \<and> previousMode st' = previousMode st \<and> cropShape st' = cropShape st \<and> world st' = world st)"

text \<open>An environment in which everything works except encoding: \<open>toBlob\<close> yields no blob.\<close>

definition no_encoder_env :: env where
  "no_encoder_env =
     \<lparr> env_image_complete = True, env_image_loads = True, env_cropped_canvas = True,
       env_context_original = True, env_context_stretch = True, env_context_mask = True,
       env_toBlob = (\<lambda>cv t q. None) \<rparr>"

definition initial_browser :: browser where
  "initial_browser =
     \<lparr> object_urls = {}, next_url = 0, body_children = [], next_node = 0, downloads = [],
       live_croppers = {}, next_cropper = 0, localStorage = Map.empty, storage_available = True \<rparr>"

definition initial_image_toolkit :: image_toolkit where
  \<comment> \<open>the initial values of the component's variables\<close>
  "initial_image_toolkit =
     \<lparr> file' = None, objectUrl = None, resultUrl = None, resultSize = 0, lastBlob = None,
       lastDownloadName = None, processing = False, statusMessage = [], errorMessage = [],
       cropper = None, CropperCtor = False, imageRef = False, originalWidth = 0,
       originalHeight = 0, aspectRatio = 1, selectedFormatValue = JStr ''image/png'',
       quality = fl (85 / 100), maintainAspect = True, keepAspectInResize = True, lastChanged = None,
       targetWidth = None, targetHeight = None, smoothing = JStr ''high'',
       addPrivateSuffix = True, mode = Crop, previousMode = Crop, cropShape = Square,
       selectedPresetValue = JStr CUSTOM_PRESET_VALUE, world = initial_browser \<rparr>"



subsection \<open>Mounting the component\<close>

text \<open>
  The framework first runs the component's script: the variables get their initial values
  and every reactive block (\<open>$:\<close>) runs once, in the order of the source, among them the
  block that persists the settings. The callback given to \<open>onMount\<close> runs afterwards, once
  the component is in the document: it imports the cropping library and restores the
  settings; then the reactive blocks run again for the variables it assigned (a block that
  runs again with its variables unchanged repeats what it did). With no file loaded there
  is no object URL and no cropper, so of the reactive blocks only the one that persists and
  the one that follows a change of \<open>mode\<close> act on the state; \<open>selectedFormat\<close> is the
  function \<^const>\<open>selectedFormat\<close>, and the preview variables are display only.
\<close>

definition reactive_blocks :: "image_toolkit \<Rightarrow> image_toolkit" where
  "reactive_blocks st = mode_reaction (persistSettings st)"

definition component_init :: "browser \<Rightarrow> image_toolkit" where
  \<comment> \<open>the script of the component, run in the given browser\<close>
  "component_init b = reactive_blocks (initial_image_toolkit\<lparr> world := b \<rparr>)"

definition onMount :: "image_toolkit \<Rightarrow> image_toolkit" where
  \<comment> \<open>the callback of \<open>onMount\<close>, the import of the cropping library succeeding\<close>
  "onMount st = reactive_blocks (restoreSettings (st\<lparr> CropperCtor := True \<rparr>))"

definition mount :: "browser \<Rightarrow> image_toolkit" where
  "mount b = onMount (component_init b)"

text \<open>
  A visitor who comes back: in an earlier visit the output format was set to WEBP, the
  quality to 0.5, the mode to resize only, the smoothing to low and the aspect lock of the
  resize mode was switched off, and the reactive block stored these settings. The browser
  of the next visit holds what that block wrote.
\<close>

definition earlier_visit :: image_toolkit where
  "earlier_visit =
     initial_image_toolkit
       \<lparr> selectedFormatValue := JStr ''image/webp'', quality := 1 / 2, mode := Resize,
         previousMode := Resize, smoothing := JStr ''low'', keepAspectInResize := False \<rparr>"

definition returning_browser :: browser where
  "returning_browser = world (persistSettings earlier_visit)"


text \<open>An image file, the state after loading it (4000 by 2000 pixels) into the initial
  component, in crop mode and in resize mode, and the crop-mode state with the cropping
  library imported, the preview image bound and a cropper initialised.\<close>

definition example_photo :: File where
  "example_photo = \<lparr> file_name = ''photo.jpg'', file_size = 1000000, file_type = ''image/jpeg'' \<rparr>"

definition loaded_photo :: image_toolkit where
  "loaded_photo = handleFileSelection (Some example_photo) (Some (4000, 2000)) initial_image_toolkit"

definition loaded_photo_resize :: image_toolkit where
  "loaded_photo_resize =
     handleFileSelection (Some example_photo) (Some (4000, 2000))
       (initial_image_toolkit\<lparr> mode := Resize, previousMode := Resize \<rparr>)"

definition loaded_sketch_resize :: image_toolkit where
  \<comment> \<open>a smaller image, 480 by 340 pixels, loaded in resize mode\<close>
  "loaded_sketch_resize =
     handleFileSelection (Some example_photo) (Some (480, 340))
       (initial_image_toolkit\<lparr> mode := Resize, previousMode := Resize \<rparr>)"

definition loaded_photo_avif :: image_toolkit where
  \<comment> \<open>the resize-mode state with AVIF chosen as the output format\<close>
  "loaded_photo_avif = loaded_photo_resize\<lparr> selectedFormatValue := JStr ''image/avif'' \<rparr>"

definition loaded_photo_cropper :: image_toolkit where
  "loaded_photo_cropper = initialiseCropper (loaded_photo\<lparr> CropperCtor := True, imageRef := True \<rparr>)"


text \<open>
  The paired dimension as the specification words it: from a width \<open>w\<close> the height
  \<open>max(1, round(w / (originalWidth / originalHeight)))\<close>, and from a height \<open>h\<close> the width
  \<open>max(1, round(h * (originalWidth / originalHeight)))\<close>, each quotient and product being
  the one of doubles.
\<close>

definition paired_height :: "image_toolkit \<Rightarrow> int \<Rightarrow> int" where
  "paired_height st w =
     max 1 (js_round (fdiv (of_int w) (fdiv (of_nat (originalWidth st)) (of_nat (originalHeight st)))))"

definition paired_width :: "image_toolkit \<Rightarrow> int \<Rightarrow> int" where
  "paired_width st h =
     max 1 (js_round (fmul (of_int h) (fdiv (of_nat (originalWidth st)) (of_nat (originalHeight st)))))"


section \<open>The PDF toolkit component\<close>

text \<open>
  The second component of the source: loaded PDF documents with a page order and a page
  selection each, and a list of images to turn into a PDF. Page indices and positions
  are JavaScript numbers that only ever hold integers (\<^typ>\<open>int\<close>); a page count is what
  the PDF library reports (\<^typ>\<open>nat\<close>); the \<open>Set\<close> of selected page indices is a set, as
  only membership and emptiness are ever asked of it. The fields \<open>arrayBuffer\<close>, \<open>objectUrl\<close> and
  \<open>metadata\<close> of a loaded PDF are opaque data that none of the modelled functions reads
  or writes, and are left out.
\<close>

record LoadedPdf =
  pdf_id :: string
  pdf_name :: string
  pdf_size :: nat
  pageCount :: nat
  pageThumbs :: "string option list"
  pageSelection :: "int set"
  lastSelectedIndex :: "int option"
  pageOrder :: "int list"
  previewUrl :: "string option"

record ImageAsset =
  asset_id :: string
  asset_name :: string
  asset_size :: nat
  asset_type :: string
  asset_width :: nat
  asset_height :: nat

record pdf_toolkit =
  pdfFiles :: "LoadedPdf list"
  imageAssets :: "ImageAsset list"
  dragPos :: "int option"
  imgDragPos :: "int option"
  pdf_statusMessage :: string
  pdf_errorMessage :: string
  pdf_processing :: bool
  pdf_addPrivateSuffix :: bool

text \<open>
  A file handed to \<open>loadPdfFiles\<close>, with what the environment answers for it: the page
  count the PDF library reports (\<^term>\<open>None\<close> when reading or parsing throws) and the
  identifier \<open>crypto.randomUUID()\<close> returns.
\<close>

record pdf_input =
  in_name :: string
  in_type :: string
  in_size :: nat
  in_pages :: "nat option"
  in_uuid :: string

definition ascii_lower :: "char \<Rightarrow> char" where
  "ascii_lower c = (case map_of (zip ''ABCDEFGHIJKLMNOPQRSTUVWXYZ'' ''abcdefghijklmnopqrstuvwxyz'') c
                    of None \<Rightarrow> c | Some d \<Rightarrow> d)"

definition endsWith :: "string \<Rightarrow> string \<Rightarrow> bool" where
  "endsWith s t = (length t \<le> length s \<and> drop (length s - length t) s = t)"

definition is_pdf_input :: "pdf_input \<Rightarrow> bool" where
  \<comment> \<open>the negation of the test that skips a file\<close>
  "is_pdf_input f = (in_type f = ''application/pdf'' \<or> endsWith (map ascii_lower (in_name f)) ''.pdf'')"

definition new_pdf :: "pdf_input \<Rightarrow> nat \<Rightarrow> LoadedPdf" where
  \<comment> \<open>the object literal \<open>pdf\<close> of \<open>loadPdfFiles\<close>\<close>
  "new_pdf f n =
     \<lparr> pdf_id = in_uuid f, pdf_name = in_name f, pdf_size = in_size f, pageCount = n,
       pageThumbs = replicate n None, pageSelection = {}, lastSelectedIndex = None,
       pageOrder = map int [0..<n], previewUrl = None \<rparr>"

fun loadPdfFiles_loop :: "pdf_input list \<Rightarrow> LoadedPdf list \<times> string \<Rightarrow> LoadedPdf list \<times> string" where
  \<comment> \<open>the \<open>for\<close> loop: the accumulator is \<open>newPdfs\<close> and \<open>errorMessage\<close>\<close>
  "loadPdfFiles_loop [] acc = acc"
| "loadPdfFiles_loop (f # fs) (newPdfs, err) =
     (if \<not> is_pdf_input f then
        loadPdfFiles_loop fs (newPdfs, ''Skipped '' @ in_name f @ '' (not a PDF).'')
      else (case in_pages f of
          None \<Rightarrow> loadPdfFiles_loop fs (newPdfs, ''Unable to read '' @ in_name f @ ''.'')
        | Some n \<Rightarrow> loadPdfFiles_loop fs (newPdfs @ [new_pdf f n], err)))"

definition loadPdfFiles :: "pdf_input list \<Rightarrow> pdf_toolkit \<Rightarrow> pdf_toolkit" where
  "loadPdfFiles files st =
     (case loadPdfFiles_loop files ([], pdf_errorMessage st) of (newPdfs, err) \<Rightarrow>
        st\<lparr> pdfFiles := pdfFiles st @ newPdfs,
            pdf_errorMessage := err,
            pdf_statusMessage := ''Loaded '' @ digits (length newPdfs) @ '' PDF''
                @ (if length newPdfs = 1 then [] else ''s'') @ ''.'' \<rparr>)"

fun findIndex :: "('a \<Rightarrow> bool) \<Rightarrow> 'a list \<Rightarrow> nat option" where
  \<comment> \<open>\<open>Array.prototype.findIndex\<close>; \<^term>\<open>None\<close> is \<open>-1\<close>\<close>
  "findIndex P [] = None"
| "findIndex P (x # xs) = (if P x then Some 0 else map_option Suc (findIndex P xs))"

definition getPdfById :: "string \<Rightarrow> pdf_toolkit \<Rightarrow> LoadedPdf option" where
  \<comment> \<open>\<open>pdfFiles.find(p => p.id === id)\<close>; \<^term>\<open>None\<close> is \<open>undefined\<close>\<close>
  "getPdfById i st = find (\<lambda>p. pdf_id p = i) (pdfFiles st)"

definition replacePdfById :: "string \<Rightarrow> (LoadedPdf \<Rightarrow> LoadedPdf) \<Rightarrow> pdf_toolkit \<Rightarrow> pdf_toolkit" where
  \<comment> \<open>the patch \<open>{ ...pdfFiles[idx], ...patch }\<close> is a function on the live entry\<close>
  "replacePdfById i patch st =
     (case findIndex (\<lambda>p. pdf_id p = i) (pdfFiles st) of
        None \<Rightarrow> st
      | Some idx \<Rightarrow> st\<lparr> pdfFiles := (pdfFiles st)[idx := patch (pdfFiles st ! idx)] \<rparr>)"

definition setPageSelection :: "LoadedPdf \<Rightarrow> int set \<Rightarrow> int option \<Rightarrow> pdf_toolkit \<Rightarrow> pdf_toolkit" where
  "setPageSelection pdf nxt lst st =
     replacePdfById (pdf_id pdf) (\<lambda>p. p\<lparr> pageSelection := nxt, lastSelectedIndex := lst \<rparr>) st"

definition togglePageSelection :: "LoadedPdf \<Rightarrow> int \<Rightarrow> bool \<Rightarrow> pdf_toolkit \<Rightarrow> pdf_toolkit" where
  \<comment> \<open>the Boolean is \<open>event.shiftKey\<close>\<close>
  "togglePageSelection pdf pageIndex shiftKey st =
     (let nxt =
        (case (shiftKey, lastSelectedIndex pdf) of
           (True, Some l) \<Rightarrow> pageSelection pdf \<union> {min l pageIndex .. max l pageIndex}
         | _ \<Rightarrow> if pageIndex \<in> pageSelection pdf then pageSelection pdf - {pageIndex}
                else insert pageIndex (pageSelection pdf))
      in setPageSelection pdf nxt (Some pageIndex) st)"

definition selectAllPages :: "LoadedPdf \<Rightarrow> pdf_toolkit \<Rightarrow> pdf_toolkit" where
  \<comment> \<open>the third argument of \<open>setPageSelection\<close> defaults to \<open>pdf.lastSelectedIndex\<close>\<close>
  "selectAllPages pdf st = setPageSelection pdf {0 ..< int (pageCount pdf)} (lastSelectedIndex pdf) st"

definition clearPageSelection :: "LoadedPdf \<Rightarrow> pdf_toolkit \<Rightarrow> pdf_toolkit" where
  "clearPageSelection pdf st = setPageSelection pdf {} None st"

definition splice_move :: "nat \<Rightarrow> nat \<Rightarrow> 'a list \<Rightarrow> 'a list" where
  \<comment> \<open>\<open>const [x] = xs.splice(f, 1); xs.splice(t, 0, x)\<close> for positions inside the array\<close>
  "splice_move f t xs =
     (let x = xs ! f; rest = take f xs @ drop (Suc f) xs
      in take t rest @ x # drop t rest)"

definition movePage :: "LoadedPdf \<Rightarrow> int \<Rightarrow> int \<Rightarrow> pdf_toolkit \<Rightarrow> pdf_toolkit" where
  "movePage pdf fromPos toPos st =
     (if fromPos = toPos then st
      else if fromPos < 0 \<or> fromPos \<ge> int (length (pageOrder pdf)) then st
      else if toPos < 0 \<or> toPos \<ge> int (length (pageOrder pdf)) then st
      else
        (let order = splice_move (nat fromPos) (nat toPos) (pageOrder pdf) in
         case findIndex (\<lambda>p. pdf_id p = pdf_id pdf) (pdfFiles st) of
           None \<Rightarrow> st
         | Some idx \<Rightarrow> st\<lparr> pdfFiles := (pdfFiles st)[idx := (pdfFiles st ! idx)\<lparr> pageOrder := order \<rparr>] \<rparr>))"

definition movePageStep :: "LoadedPdf \<Rightarrow> int \<Rightarrow> int \<Rightarrow> pdf_toolkit \<Rightarrow> pdf_toolkit" where
  "movePageStep pdf pos dir st = movePage pdf pos (pos + dir) st"

definition onDragStart :: "int \<Rightarrow> pdf_toolkit \<Rightarrow> pdf_toolkit" where
  "onDragStart pos st = st\<lparr> dragPos := Some pos \<rparr>"

definition onDrop :: "LoadedPdf \<Rightarrow> int \<Rightarrow> pdf_toolkit \<Rightarrow> pdf_toolkit" where
  "onDrop pdf pos st =
     (case dragPos st of
        None \<Rightarrow> st
      | Some d \<Rightarrow> (movePage pdf d pos st)\<lparr> dragPos := None \<rparr>)"

definition moveImage :: "int \<Rightarrow> int \<Rightarrow> pdf_toolkit \<Rightarrow> pdf_toolkit" where
  "moveImage fromPos toPos st =
     (if fromPos = toPos then st
      else if fromPos < 0 \<or> fromPos \<ge> int (length (imageAssets st)) then st
      else if toPos < 0 \<or> toPos \<ge> int (length (imageAssets st)) then st
      else st\<lparr> imageAssets := splice_move (nat fromPos) (nat toPos) (imageAssets st) \<rparr>)"

definition moveImageStep :: "int \<Rightarrow> int \<Rightarrow> pdf_toolkit \<Rightarrow> pdf_toolkit" where
  "moveImageStep pos dir st = moveImage pos (pos + dir) st"

definition onImageDrop :: "int \<Rightarrow> pdf_toolkit \<Rightarrow> pdf_toolkit" where
  "onImageDrop pos st =
     (case imgDragPos st of
        None \<Rightarrow> st
      | Some d \<Rightarrow> (moveImage d pos st)\<lparr> imgDragPos := None \<rparr>)"

text \<open>
  \<open>exportSelectedPages\<close> hands the selected pages, in page order, to the PDF library.
  The library is outside the repository: \<open>copyPages\<close> is taken to copy the pages at the
  given indices in the order given and to throw on an index that is not a page of the
  source (the text of that error is the library's and is a placeholder here); a selection
  of size zero is the empty set; the first argument of the model is the message of an error thrown by loading
  or saving (\<^term>\<open>None\<close> when both succeed). The result is the new state together with
  the download, if any: the file name and the source page indices of the pages of the
  exported document, in order.
\<close>

definition copyPages :: "nat \<Rightarrow> int list \<Rightarrow> int list option" where
  "copyPages n indices = (if list_all (\<lambda>i. 0 \<le> i \<and> i < int n) indices then Some indices else None)"

definition or_default :: "string \<Rightarrow> string \<Rightarrow> string" where
  \<comment> \<open>\<open>message || fallback\<close> on strings\<close>
  "or_default message fallback = (if message = [] then fallback else message)"

definition exportSelectedPages ::
  "string option \<Rightarrow> LoadedPdf \<Rightarrow> pdf_toolkit \<Rightarrow> pdf_toolkit \<times> (string \<times> int list) option" where
  "exportSelectedPages lib_error pdf st =
     (if pageSelection pdf = {} then (st\<lparr> pdf_errorMessage := ''Select pages to export.'' \<rparr>, None)
      else
        (let st1 = st\<lparr> pdf_processing := True, pdf_errorMessage := [], pdf_statusMessage := [] \<rparr>;
             inOrder = filter (\<lambda>idx. idx \<in> pageSelection pdf) (pageOrder pdf);
             failed = (\<lambda>m. (st1\<lparr> pdf_errorMessage := or_default m ''Unable to export selected pages.'',
                                 pdf_processing := False \<rparr>, None))
         in case lib_error of
              Some m \<Rightarrow> failed m
            | None \<Rightarrow>
               (case copyPages (pageCount pdf) inOrder of
                  None \<Rightarrow> failed ''Invalid page index''
                | Some copied \<Rightarrow>
                   (let suffix = (if pdf_addPrivateSuffix st then ''.private'' else []);
                        name = deriveFileName (pdf_name pdf) ''pdf''
                                 (Some (''pages-'' @ join_dash (map (\<lambda>p. int_string (p + 1)) inOrder) @ suffix))
                    in (st1\<lparr> pdf_statusMessage := ''Exported '' @ digits (length inOrder) @ '' page''
                                  @ (if length inOrder = 1 then [] else ''s'') @ '' from '' @ pdf_name pdf @ ''.'',
                              pdf_processing := False \<rparr>,
                        Some (name, copied))))))"

definition is_page_permutation :: "LoadedPdf \<Rightarrow> bool" where
  \<comment> \<open>the page order lists every page index below the page count exactly once\<close>
  "is_page_permutation p = (mset (pageOrder p) = mset (map int [0..<pageCount p]))"

definition selection_valid :: "LoadedPdf \<Rightarrow> bool" where
  \<comment> \<open>the selection and the last selected index are page indices\<close>
  "selection_valid p =
     (pageSelection p \<subseteq> {0 ..< int (pageCount p)}
      \<and> (case lastSelectedIndex p of None \<Rightarrow> True | Some l \<Rightarrow> 0 \<le> l \<and> l < int (pageCount p)))"

definition ids_distinct :: "pdf_toolkit \<Rightarrow> bool" where
  "ids_distinct st = distinct (map pdf_id (pdfFiles st))"


definition initial_pdf_toolkit :: pdf_toolkit where
  \<comment> \<open>the initial values of the component's variables\<close>
  "initial_pdf_toolkit =
     \<lparr> pdfFiles = [], imageAssets = [], dragPos = None, imgDragPos = None,
       pdf_statusMessage = [], pdf_errorMessage = [], pdf_processing = False,
       pdf_addPrivateSuffix = True \<rparr>"

text \<open>A three-page document and a toolkit state holding it, for concrete evaluations;
  and a PDF file in which the library finds no page.\<close>

definition zero_page_input :: pdf_input where
  "zero_page_input =
     \<lparr> in_name = ''empty.pdf'', in_type = ''application/pdf'', in_size = 300,
       in_pages = Some 0, in_uuid = ''u0'' \<rparr>"


definition zero_page_toolkit :: pdf_toolkit where
  "zero_page_toolkit = loadPdfFiles [zero_page_input] initial_pdf_toolkit"

definition example_pdf :: LoadedPdf where
  "example_pdf =
     new_pdf \<lparr> in_name = ''Doc.PDF'', in_type = [], in_size = 1000, in_pages = Some 3,
               in_uuid = ''u1'' \<rparr> 3"

definition example_pdf_toolkit :: pdf_toolkit where
  "example_pdf_toolkit =
     \<lparr> pdfFiles = [example_pdf], imageAssets = [], dragPos = None, imgDragPos = None,
       pdf_statusMessage = [], pdf_errorMessage = [], pdf_processing = False,
       pdf_addPrivateSuffix = True \<rparr>"


section \<open>Theorems\<close>


subsection \<open>File names\<close>

lemma is_name_char_dash: "is_name_char (CHR ''-'')"
  by (simp add: is_name_char_def)

lemma replace_unsafe_chars: "c \<in> set (replace_unsafe s) \<Longrightarrow> is_name_char c"
  by (auto simp: replace_unsafe_def is_name_char_dash)

lemma collapse_dashes_set: "set (collapse_dashes s) \<subseteq> set s"
  by (induction s rule: collapse_dashes.induct) auto

lemma collapse_dashes_hd: "collapse_dashes (d # cs) = d # tl (collapse_dashes (d # cs))"
  by (induction "d # cs" arbitrary: d cs rule: collapse_dashes.induct) auto

lemma collapse_dashes_no_run: "no_dash_run (collapse_dashes s)"
proof (induction s rule: collapse_dashes.induct)
  case (3 c d cs)
  obtain r where r: "collapse_dashes (d # cs) = d # r"
    using collapse_dashes_hd by blast
  show ?case
  proof (cases "c = CHR ''-'' \<and> d = CHR ''-''")
    case True
    with 3 show ?thesis by simp
  next
    case False
    with 3 r show ?thesis by auto
  qed
qed simp_all

lemma no_dash_run_tl: "no_dash_run (c # cs) \<Longrightarrow> no_dash_run cs"
  by (cases cs) auto

lemma no_dash_run_butlast: "no_dash_run s \<Longrightarrow> no_dash_run (butlast s)"
  by (induction s rule: no_dash_run.induct) (auto split: if_splits)

lemma no_dash_run_last: "no_dash_run s \<Longrightarrow> s \<noteq> [] \<Longrightarrow> last s = CHR ''-'' \<Longrightarrow> butlast s \<noteq> [] \<Longrightarrow> last (butlast s) \<noteq> CHR ''-''"
  by (induction s rule: no_dash_run.induct) (auto split: if_splits)

lemma no_dash_run_nth:
  "no_dash_run s \<Longrightarrow> Suc i < length s \<Longrightarrow> \<not> (s ! i = CHR ''-'' \<and> s ! Suc i = CHR ''-'')"
proof (induction s arbitrary: i rule: no_dash_run.induct)
  case (1 c d cs)
  then show ?case by (cases i) auto
qed simp_all

lemma trim_dashes_set: "set (trim_dashes s) \<subseteq> set s"
  by (auto simp: trim_dashes_def Let_def split: list.splits dest: in_set_butlastD)

lemma trim_dashes_no_run:
  assumes "no_dash_run s"
  shows "no_dash_run (trim_dashes s)"
proof -
  define s1 where "s1 = (case s of [] \<Rightarrow> [] | c # cs \<Rightarrow> if c = CHR ''-'' then cs else c # cs)"
  define s2 where "s2 = (if s1 \<noteq> [] \<and> last s1 = CHR ''-'' then butlast s1 else s1)"
  have t: "trim_dashes s = s2"
    by (simp add: trim_dashes_def s1_def s2_def)
  have "no_dash_run s1"
    using assms by (auto simp: s1_def split: list.splits dest: no_dash_run_tl)
  then have "no_dash_run s2"
    by (simp add: s2_def no_dash_run_butlast)
  with t show ?thesis by simp
qed

lemma trim_dashes_edges:
  assumes "no_dash_run s" and "trim_dashes s \<noteq> []"
  shows "hd (trim_dashes s) \<noteq> CHR ''-'' \<and> last (trim_dashes s) \<noteq> CHR ''-''"
proof -
  define s1 where "s1 = (case s of [] \<Rightarrow> [] | c # cs \<Rightarrow> if c = CHR ''-'' then cs else c # cs)"
  define s2 where "s2 = (if s1 \<noteq> [] \<and> last s1 = CHR ''-'' then butlast s1 else s1)"
  have t: "trim_dashes s = s2"
    by (simp add: trim_dashes_def s1_def s2_def)
  have r1: "no_dash_run s1"
    using assms(1) by (auto simp: s1_def split: list.splits dest: no_dash_run_tl)
  have h1: "s1 \<noteq> [] \<Longrightarrow> hd s1 \<noteq> CHR ''-''"
    using assms(1) by (cases s; cases "tl s") (auto simp: s1_def split: if_splits)
  from assms(2) t have ne: "s2 \<noteq> []" by simp
  then have ne1: "s1 \<noteq> []" by (auto simp: s2_def split: if_splits)
  have "hd s2 = hd s1"
    using ne by (cases s1) (auto simp: s2_def split: if_splits)
  moreover have "last s2 \<noteq> CHR ''-''"
    using ne ne1 r1 no_dash_run_last [of s1] by (auto simp: s2_def split: if_splits)
  ultimately show ?thesis
    using h1 ne1 t by simp
qed

lemma deriveStem_nonempty: "deriveStem n \<noteq> []"
  by (simp add: deriveStem_def Let_def)

lemma deriveStem_chars: "c \<in> set (deriveStem n) \<Longrightarrow> is_name_char c"
proof (cases "trim_dashes (collapse_dashes (replace_unsafe (getFileStem n))) = []")
  case True
  assume "c \<in> set (deriveStem n)"
  with True have "c \<in> set ''processed-file''" by (simp add: deriveStem_def)
  then show ?thesis by (auto simp: is_name_char_def)
next
  case False
  assume "c \<in> set (deriveStem n)"
  with False have "c \<in> set (trim_dashes (collapse_dashes (replace_unsafe (getFileStem n))))"
    by (simp add: deriveStem_def Let_def)
  then have "c \<in> set (replace_unsafe (getFileStem n))"
    using trim_dashes_set collapse_dashes_set by blast
  then show ?thesis by (rule replace_unsafe_chars)
qed

lemma deriveStem_dashes:
  "hd (deriveStem n) \<noteq> CHR ''-'' \<and> last (deriveStem n) \<noteq> CHR ''-'' \<and> no_dash_run (deriveStem n)"
proof (cases "trim_dashes (collapse_dashes (replace_unsafe (getFileStem n))) = []")
  case True
  then have "deriveStem n = ''processed-file''" by (simp add: deriveStem_def)
  then show ?thesis by simp
next
  case False
  then have d: "deriveStem n = trim_dashes (collapse_dashes (replace_unsafe (getFileStem n)))"
    by (simp add: deriveStem_def Let_def)
  show ?thesis
    unfolding d
    using trim_dashes_edges [OF collapse_dashes_no_run False]
      trim_dashes_no_run [OF collapse_dashes_no_run]
    by simp
qed

text \<open>
  Claim C9, as amended. For every original name, target extension and optional suffix,
  \<open>deriveFileName\<close> returns the stem, then the suffix after a dash when the suffix is a
  non-empty string (an absent or empty suffix adds nothing), then a dot and the target
  extension. The stem is never empty (it is \<open>processed-file\<close> when sanitising leaves nothing),
  consists of ASCII letters, digits, dashes and underscores only, neither starts nor ends
  with a dash, and has no two dashes in a row.
\<close>

theorem deriveFileName_shape:
  "(suffix = None \<or> suffix = Some [] \<longrightarrow>
      deriveFileName originalName targetExtension suffix
        = deriveStem originalName @ ''.'' @ targetExtension)
   \<and> (\<forall>s. suffix = Some s \<and> s \<noteq> [] \<longrightarrow>
      deriveFileName originalName targetExtension suffix
        = deriveStem originalName @ ''-'' @ s @ ''.'' @ targetExtension)
   \<and> deriveStem originalName \<noteq> []
   \<and> (trim_dashes (collapse_dashes (replace_unsafe (getFileStem originalName))) = [] \<longrightarrow>
        deriveStem originalName = ''processed-file'')
   \<and> (\<forall>c \<in> set (deriveStem originalName). is_name_char c)
   \<and> hd (deriveStem originalName) \<noteq> CHR ''-''
   \<and> last (deriveStem originalName) \<noteq> CHR ''-''
   \<and> (\<forall>i. Suc i < length (deriveStem originalName) \<longrightarrow>
        \<not> (deriveStem originalName ! i = CHR ''-'' \<and> deriveStem originalName ! Suc i = CHR ''-''))"
proof -
  have a: "suffix = None \<or> suffix = Some [] \<longrightarrow>
      deriveFileName originalName targetExtension suffix
        = deriveStem originalName @ ''.'' @ targetExtension"
    by (auto simp: deriveFileName_def)
  have b: "\<forall>s. suffix = Some s \<and> s \<noteq> [] \<longrightarrow>
      deriveFileName originalName targetExtension suffix
        = deriveStem originalName @ ''-'' @ s @ ''.'' @ targetExtension"
    by (auto simp: deriveFileName_def)
  have c: "trim_dashes (collapse_dashes (replace_unsafe (getFileStem originalName))) = [] \<longrightarrow>
        deriveStem originalName = ''processed-file''"
    by (simp add: deriveStem_def)
  have d: "\<forall>c \<in> set (deriveStem originalName). is_name_char c"
    using deriveStem_chars by blast
  have e: "\<forall>i. Suc i < length (deriveStem originalName) \<longrightarrow>
        \<not> (deriveStem originalName ! i = CHR ''-'' \<and> deriveStem originalName ! Suc i = CHR ''-'')"
    using no_dash_run_nth deriveStem_dashes by blast
  show ?thesis
    using a b c d e deriveStem_nonempty deriveStem_dashes by blast
qed

theorem deriveFileName_shape_witness:
  "deriveFileName ''My Photo (1).final.JPG'' ''png'' (Some ''private'')
     = ''My-Photo-1-final'' @ ''-'' @ ''private'' @ ''.'' @ ''png''
   \<and> deriveStem ''My Photo (1).final.JPG'' = ''My-Photo-1-final''
   \<and> deriveFileName ''...'' ''jpg'' None = ''processed-file'' @ ''.'' @ ''jpg''
   \<and> is_name_char (CHR ''M'')
   \<and> \<not> (deriveStem ''My Photo (1).final.JPG'' ! 1 = CHR ''-''
         \<and> deriveStem ''My Photo (1).final.JPG'' ! Suc 1 = CHR ''-'')"
proof -
  have s: "deriveStem ''My Photo (1).final.JPG'' = ''My-Photo-1-final''"
    by code_simp
  have t: "deriveStem ''...'' = ''processed-file''"
    by code_simp
  show ?thesis
    using deriveFileName_shape [of "Some ''private''" "''My Photo (1).final.JPG''" "''png''"]
      deriveFileName_shape [of None "''...''" "''jpg''"]
    by (simp add: s t)
qed

text \<open>
  Claim C9 as first stated fails for a suffix that is given but empty: the code tests the
  suffix for truthiness, so no dash is inserted.
\<close>

theorem deriveFileName_empty_suffix_counterexample:
  "deriveFileName ''a.png'' ''png'' (Some []) = ''a.png''
   \<and> deriveFileName ''a.png'' ''png'' (Some [])
       \<noteq> deriveStem ''a.png'' @ ''-'' @ [] @ ''.'' @ ''png''"
  by code_simp

subsection \<open>Page order and image order\<close>

lemma splice_move_mset: "f < length xs \<Longrightarrow> mset (splice_move f t xs) = mset xs"
proof -
  assume f: "f < length xs"
  define rest where "rest = take f xs @ drop (Suc f) xs"
  have "mset xs = mset (take f xs @ xs ! f # drop (Suc f) xs)"
    using f by (simp only: id_take_nth_drop [symmetric])
  then have a: "mset xs = add_mset (xs ! f) (mset rest)"
    by (simp add: rest_def)
  have "mset (take t rest) + mset (drop t rest) = mset rest"
    by (metis append_take_drop_id mset_append)
  then have "mset (take t rest @ xs ! f # drop t rest) = add_mset (xs ! f) (mset rest)"
    by simp
  with a show ?thesis
    by (simp add: splice_move_def rest_def Let_def)
qed

lemma findIndex_Some: "findIndex P xs = Some i \<Longrightarrow> i < length xs \<and> P (xs ! i)"
proof (induction xs arbitrary: i)
  case Nil
  then show ?case by simp
next
  case (Cons x xs)
  then show ?case by (cases "P x") auto
qed

lemma findIndex_None: "findIndex P xs = None \<Longrightarrow> x \<in> set xs \<Longrightarrow> \<not> P x"
  by (induction xs) (auto split: if_splits)

lemma findIndex_distinct_id:
  assumes "distinct (map pdf_id xs)" and "pdf \<in> set xs"
    and "findIndex (\<lambda>p. pdf_id p = pdf_id pdf) xs = Some i"
  shows "xs ! i = pdf"
proof -
  from assms(3) have i: "i < length xs" and e: "pdf_id (xs ! i) = pdf_id pdf"
    using findIndex_Some by fastforce+
  from assms(2) obtain j where j: "j < length xs" and xj: "xs ! j = pdf"
    by (auto simp: in_set_conv_nth)
  have "map pdf_id xs ! i = map pdf_id xs ! j"
    using i j e xj by simp
  moreover have "i < length (map pdf_id xs)" and "j < length (map pdf_id xs)"
    using i j by simp_all
  ultimately have "i = j"
    using assms(1) nth_eq_iff_index_eq by blast
  with xj show ?thesis by simp
qed

lemma findIndex_member:
  assumes "pdf \<in> set xs"
  shows "\<exists>i. findIndex (\<lambda>p. pdf_id p = pdf_id pdf) xs = Some i"
proof (cases "findIndex (\<lambda>p. pdf_id p = pdf_id pdf) xs")
  case None
  with assms findIndex_None [of "\<lambda>p. pdf_id p = pdf_id pdf" xs pdf] show ?thesis by simp
next
  case (Some i)
  then show ?thesis by simp
qed

lemma set_update_cases: "p \<in> set (xs[i := y]) \<Longrightarrow> p = y \<or> p \<in> set xs"
  using set_update_subset_insert by fastforce

lemma map_id_update:
  "i < length xs \<Longrightarrow> pdf_id y = pdf_id (xs ! i) \<Longrightarrow> map pdf_id (xs[i := y]) = map pdf_id xs"
  by (simp add: map_update list_update_same_conv)

text \<open>One patched entry: what \<open>replacePdfById\<close> and \<open>movePage\<close> do to the list.\<close>

lemma patch_preserves:
  assumes "\<forall>p \<in> set xs. Q p" and "i < length xs" and "Q (g (xs ! i))"
  shows "\<forall>p \<in> set (xs[i := g (xs ! i)]). Q p"
  using assms set_update_cases by fastforce

lemma movePage_cases:
  "movePage pdf fromPos toPos st = st
   \<or> (\<exists>idx. 0 \<le> fromPos \<and> fromPos < int (length (pageOrder pdf))
        \<and> findIndex (\<lambda>p. pdf_id p = pdf_id pdf) (pdfFiles st) = Some idx
        \<and> movePage pdf fromPos toPos st
           = st\<lparr> pdfFiles := (pdfFiles st)[idx := (pdfFiles st ! idx)
                 \<lparr> pageOrder := splice_move (nat fromPos) (nat toPos) (pageOrder pdf) \<rparr>] \<rparr>)"
  by (auto simp: movePage_def Let_def split: option.splits)

lemma movePage_permutation:
  assumes d: "ids_distinct st" and m: "pdf \<in> set (pdfFiles st)"
    and inv: "\<forall>p \<in> set (pdfFiles st). is_page_permutation p"
  shows "\<forall>p \<in> set (pdfFiles (movePage pdf fromPos toPos st)). is_page_permutation p"
proof -
  from movePage_cases [of pdf fromPos toPos st] show ?thesis
  proof
    assume "movePage pdf fromPos toPos st = st"
    with inv show ?thesis by simp
  next
    assume "\<exists>idx. 0 \<le> fromPos \<and> fromPos < int (length (pageOrder pdf))
        \<and> findIndex (\<lambda>p. pdf_id p = pdf_id pdf) (pdfFiles st) = Some idx
        \<and> movePage pdf fromPos toPos st
           = st\<lparr> pdfFiles := (pdfFiles st)[idx := (pdfFiles st ! idx)
                 \<lparr> pageOrder := splice_move (nat fromPos) (nat toPos) (pageOrder pdf) \<rparr>] \<rparr>"
    then obtain idx where r: "0 \<le> fromPos" "fromPos < int (length (pageOrder pdf))"
      and fi: "findIndex (\<lambda>p. pdf_id p = pdf_id pdf) (pdfFiles st) = Some idx"
      and eq: "movePage pdf fromPos toPos st
           = st\<lparr> pdfFiles := (pdfFiles st)[idx := (pdfFiles st ! idx)
                 \<lparr> pageOrder := splice_move (nat fromPos) (nat toPos) (pageOrder pdf) \<rparr>] \<rparr>"
      by blast
    from d m fi have same: "pdfFiles st ! idx = pdf"
      using findIndex_distinct_id by (simp add: ids_distinct_def)
    from fi have lt: "idx < length (pdfFiles st)"
      using findIndex_Some by fastforce
    from r have "nat fromPos < length (pageOrder pdf)" by linarith
    then have "mset (splice_move (nat fromPos) (nat toPos) (pageOrder pdf)) = mset (pageOrder pdf)"
      by (rule splice_move_mset)
    moreover from inv m have "is_page_permutation pdf" by blast
    ultimately have "is_page_permutation
        (pdf\<lparr> pageOrder := splice_move (nat fromPos) (nat toPos) (pageOrder pdf) \<rparr>)"
      by (simp add: is_page_permutation_def)
    with same have "is_page_permutation ((\<lambda>p. p\<lparr> pageOrder := splice_move (nat fromPos) (nat toPos) (pageOrder pdf) \<rparr>) (pdfFiles st ! idx))"
      by simp
    from patch_preserves [OF inv lt, of "\<lambda>p. p\<lparr> pageOrder := splice_move (nat fromPos) (nat toPos) (pageOrder pdf) \<rparr>", OF this]
    show ?thesis
      by (simp add: eq)
  qed
qed

lemma movePage_ids: "map pdf_id (pdfFiles (movePage pdf fromPos toPos st)) = map pdf_id (pdfFiles st)"
proof -
  from movePage_cases [of pdf fromPos toPos st] show ?thesis
  proof
    assume "movePage pdf fromPos toPos st = st"
    then show ?thesis by simp
  next
    assume "\<exists>idx. 0 \<le> fromPos \<and> fromPos < int (length (pageOrder pdf))
        \<and> findIndex (\<lambda>p. pdf_id p = pdf_id pdf) (pdfFiles st) = Some idx
        \<and> movePage pdf fromPos toPos st
           = st\<lparr> pdfFiles := (pdfFiles st)[idx := (pdfFiles st ! idx)
                 \<lparr> pageOrder := splice_move (nat fromPos) (nat toPos) (pageOrder pdf) \<rparr>] \<rparr>"
    then obtain idx where fi: "findIndex (\<lambda>p. pdf_id p = pdf_id pdf) (pdfFiles st) = Some idx"
      and eq: "movePage pdf fromPos toPos st
           = st\<lparr> pdfFiles := (pdfFiles st)[idx := (pdfFiles st ! idx)
                 \<lparr> pageOrder := splice_move (nat fromPos) (nat toPos) (pageOrder pdf) \<rparr>] \<rparr>"
      by blast
    from fi have lt: "idx < length (pdfFiles st)"
      using findIndex_Some by fastforce
    show ?thesis
      by (simp add: eq map_id_update [OF lt])
  qed
qed

lemma page_permutation_distinct_set:
  assumes "is_page_permutation p"
  shows "distinct (pageOrder p) \<and> set (pageOrder p) = {0 ..< int (pageCount p)}"
proof -
  from assms have e: "mset (pageOrder p) = mset (map int [0..<pageCount p])"
    by (simp add: is_page_permutation_def)
  have "distinct (map int [0..<pageCount p])"
    by (simp add: distinct_map)
  with e have "distinct (pageOrder p)"
    using mset_eq_imp_distinct_iff by blast
  moreover from e have "set (pageOrder p) = set (map int [0..<pageCount p])"
    by (rule mset_eq_setD)
  moreover have "set (map int [0..<pageCount p]) = {0 ..< int (pageCount p)}"
    by (auto simp: image_iff) (metis nat_int zero_le_imp_eq_int atLeastLessThan_iff atLeast0LessThan lessThan_iff nat_less_iff)
  ultimately show ?thesis by simp
qed

lemma loadPdfFiles_loop_fst:
  "fst (loadPdfFiles_loop fs (acc, err))
     = acc @ map (\<lambda>f. new_pdf f (the (in_pages f)))
              (filter (\<lambda>f. is_pdf_input f \<and> in_pages f \<noteq> None) fs)"
  by (induction fs arbitrary: acc err) (auto split: option.splits)

lemma loadPdfFiles_pdfFiles:
  "pdfFiles (loadPdfFiles files st)
     = pdfFiles st @ map (\<lambda>f. new_pdf f (the (in_pages f)))
                       (filter (\<lambda>f. is_pdf_input f \<and> in_pages f \<noteq> None) files)"
proof -
  obtain newPdfs err where l: "loadPdfFiles_loop files ([], pdf_errorMessage st) = (newPdfs, err)"
    by (cases "loadPdfFiles_loop files ([], pdf_errorMessage st)")
  with loadPdfFiles_loop_fst [of files "[]" "pdf_errorMessage st"]
  have "newPdfs = map (\<lambda>f. new_pdf f (the (in_pages f)))
                       (filter (\<lambda>f. is_pdf_input f \<and> in_pages f \<noteq> None) files)"
    by simp
  with l show ?thesis
    by (simp add: loadPdfFiles_def)
qed

lemma new_pdf_permutation: "is_page_permutation (new_pdf f n)"
  by (simp add: is_page_permutation_def new_pdf_def)

lemma new_pdf_selection: "selection_valid (new_pdf f n)"
  by (simp add: selection_valid_def new_pdf_def)

lemma loadPdfFiles_ids_distinct:
  assumes "ids_distinct st" and "distinct (map in_uuid files)"
    and "in_uuid ` set files \<inter> pdf_id ` set (pdfFiles st) = {}"
  shows "ids_distinct (loadPdfFiles files st)"
proof -
  have m: "map pdf_id (map (\<lambda>f. new_pdf f (the (in_pages f)))
                       (filter (\<lambda>f. is_pdf_input f \<and> in_pages f \<noteq> None) files))
        = map in_uuid (filter (\<lambda>f. is_pdf_input f \<and> in_pages f \<noteq> None) files)"
    by (simp add: new_pdf_def)
  have "distinct (map in_uuid (filter (\<lambda>f. is_pdf_input f \<and> in_pages f \<noteq> None) files))"
    using assms(2) by (rule distinct_map_filter)
  moreover have "set (map in_uuid (filter (\<lambda>f. is_pdf_input f \<and> in_pages f \<noteq> None) files))
        \<inter> set (map pdf_id (pdfFiles st)) = {}"
    using assms(3) by auto
  ultimately show ?thesis
    using assms(1) unfolding ids_distinct_def loadPdfFiles_pdfFiles map_append m
    by (simp add: Int_commute)
qed

lemma moveImage_mset: "mset (imageAssets (moveImage fromPos toPos st)) = mset (imageAssets st)"
proof (cases "fromPos \<noteq> toPos \<and> 0 \<le> fromPos \<and> fromPos < int (length (imageAssets st))
               \<and> 0 \<le> toPos \<and> toPos < int (length (imageAssets st))")
  case True
  then have "nat fromPos < length (imageAssets st)" by linarith
  then have "mset (splice_move (nat fromPos) (nat toPos) (imageAssets st)) = mset (imageAssets st)"
    by (rule splice_move_mset)
  with True show ?thesis by (simp add: moveImage_def)
next
  case False
  then have "moveImage fromPos toPos st = st"
    by (auto simp: moveImage_def)
  then show ?thesis by simp
qed

lemma onDrop_pdfFiles:
  "pdfFiles (onDrop pdf pos st) = pdfFiles st
   \<or> (\<exists>d. pdfFiles (onDrop pdf pos st) = pdfFiles (movePage pdf d pos st))"
  by (cases "dragPos st") (auto simp: onDrop_def)

lemma onImageDrop_assets:
  "imageAssets (onImageDrop pos st) = imageAssets st
   \<or> (\<exists>d. imageAssets (onImageDrop pos st) = imageAssets (moveImage d pos st))"
  by (cases "imgDragPos st") (auto simp: onImageDrop_def)

lemma example_pdf_simps:
  "pdf_id example_pdf = ''u1''" "pageCount example_pdf = 3" "pageOrder example_pdf = [0, 1, 2]"
  "pageSelection example_pdf = {}" "lastSelectedIndex example_pdf = None"
  "pdf_name example_pdf = ''Doc.PDF''"
  by (simp_all add: example_pdf_def new_pdf_def upt_rec)

lemma example_pdf_toolkit_simps:
  "pdfFiles example_pdf_toolkit = [example_pdf]" "dragPos example_pdf_toolkit = None"
  "pdf_addPrivateSuffix example_pdf_toolkit = True"
  by (simp_all add: example_pdf_toolkit_def)

lemma example_movePage:
  "pdfFiles (movePage example_pdf 0 2 example_pdf_toolkit) = [example_pdf\<lparr> pageOrder := [1, 2, 0] \<rparr>]"
  by (simp add: movePage_def splice_move_def example_pdf_simps example_pdf_toolkit_simps Let_def)



lemma replacePdfById_cases:
  "replacePdfById i g st = st
   \<or> (\<exists>idx. findIndex (\<lambda>p. pdf_id p = i) (pdfFiles st) = Some idx
        \<and> replacePdfById i g st = st\<lparr> pdfFiles := (pdfFiles st)[idx := g (pdfFiles st ! idx)] \<rparr>)"
  by (auto simp: replacePdfById_def split: option.splits)

lemma setPageSelection_permutation:
  assumes inv: "\<forall>p \<in> set (pdfFiles st). is_page_permutation p"
  shows "\<forall>p \<in> set (pdfFiles (setPageSelection pdf nxt lst st)). is_page_permutation p"
proof -
  let ?g = "\<lambda>p. p\<lparr> pageSelection := nxt, lastSelectedIndex := lst \<rparr>"
  from replacePdfById_cases [of "pdf_id pdf" ?g st] show ?thesis
  proof
    assume "replacePdfById (pdf_id pdf) ?g st = st"
    with inv show ?thesis by (simp add: setPageSelection_def)
  next
    assume "\<exists>idx. findIndex (\<lambda>p. pdf_id p = pdf_id pdf) (pdfFiles st) = Some idx
        \<and> replacePdfById (pdf_id pdf) ?g st = st\<lparr> pdfFiles := (pdfFiles st)[idx := ?g (pdfFiles st ! idx)] \<rparr>"
    then obtain idx where fi: "findIndex (\<lambda>p. pdf_id p = pdf_id pdf) (pdfFiles st) = Some idx"
      and eq: "replacePdfById (pdf_id pdf) ?g st = st\<lparr> pdfFiles := (pdfFiles st)[idx := ?g (pdfFiles st ! idx)] \<rparr>"
      by blast
    from fi have lt: "idx < length (pdfFiles st)"
      using findIndex_Some by fastforce
    with inv have "is_page_permutation (pdfFiles st ! idx)" by simp
    then have "is_page_permutation (?g (pdfFiles st ! idx))"
      by (simp add: is_page_permutation_def)
    from patch_preserves [OF inv lt, of ?g, OF this] show ?thesis
      by (simp add: setPageSelection_def eq)
  qed
qed

lemma setPageSelection_ids:
  "map pdf_id (pdfFiles (setPageSelection pdf nxt lst st)) = map pdf_id (pdfFiles st)"
proof -
  let ?g = "\<lambda>p. p\<lparr> pageSelection := nxt, lastSelectedIndex := lst \<rparr>"
  from replacePdfById_cases [of "pdf_id pdf" ?g st] show ?thesis
  proof
    assume "replacePdfById (pdf_id pdf) ?g st = st"
    then show ?thesis by (simp add: setPageSelection_def)
  next
    assume "\<exists>idx. findIndex (\<lambda>p. pdf_id p = pdf_id pdf) (pdfFiles st) = Some idx
        \<and> replacePdfById (pdf_id pdf) ?g st = st\<lparr> pdfFiles := (pdfFiles st)[idx := ?g (pdfFiles st ! idx)] \<rparr>"
    then obtain idx where fi: "findIndex (\<lambda>p. pdf_id p = pdf_id pdf) (pdfFiles st) = Some idx"
      and eq: "replacePdfById (pdf_id pdf) ?g st = st\<lparr> pdfFiles := (pdfFiles st)[idx := ?g (pdfFiles st ! idx)] \<rparr>"
      by blast
    from fi have lt: "idx < length (pdfFiles st)"
      using findIndex_Some by fastforce
    show ?thesis
      by (simp add: setPageSelection_def eq map_id_update [OF lt])
  qed
qed

text \<open>
  Claim C10. The page order of a freshly loaded PDF is the identity on its page indices,
  and loading leaves the documents already there as they are. In a state whose documents
  have distinct identifiers and page orders that are permutations of their page indices,
  \<open>movePage\<close>, \<open>movePageStep\<close> and the drop handler \<open>onDrop\<close>, applied to a document of
  the state, leave every page order such a permutation; a source or target position
  outside the page order changes nothing. A permutation lists every page index exactly
  once. \<open>moveImage\<close>, \<open>moveImageStep\<close> and \<open>onImageDrop\<close> rearrange the image list
  without adding or dropping an asset, and reject positions outside it. The operations on
  the page selection leave every page order as it is.
\<close>

theorem pageOrder_permutation:
  "(\<exists>newPdfs. pdfFiles (loadPdfFiles files st) = pdfFiles st @ newPdfs
       \<and> (\<forall>p \<in> set newPdfs. pageOrder p = map int [0..<pageCount p] \<and> is_page_permutation p))
   \<and> (ids_distinct st \<and> pdf \<in> set (pdfFiles st) \<and> (\<forall>p \<in> set (pdfFiles st). is_page_permutation p)
        \<longrightarrow> (\<forall>p \<in> set (pdfFiles (movePage pdf fromPos toPos st)). is_page_permutation p)
          \<and> (\<forall>p \<in> set (pdfFiles (movePageStep pdf fromPos dir st)). is_page_permutation p)
          \<and> (\<forall>p \<in> set (pdfFiles (onDrop pdf toPos st)). is_page_permutation p)
          \<and> ids_distinct (movePage pdf fromPos toPos st))
   \<and> (fromPos < 0 \<or> int (length (pageOrder pdf)) \<le> fromPos \<or> toPos < 0
          \<or> int (length (pageOrder pdf)) \<le> toPos
        \<longrightarrow> movePage pdf fromPos toPos st = st)
   \<and> (is_page_permutation pdf
        \<longrightarrow> distinct (pageOrder pdf) \<and> set (pageOrder pdf) = {0 ..< int (pageCount pdf)})
   \<and> mset (imageAssets (moveImage fromPos toPos st)) = mset (imageAssets st)
   \<and> mset (imageAssets (moveImageStep fromPos dir st)) = mset (imageAssets st)
   \<and> mset (imageAssets (onImageDrop toPos st)) = mset (imageAssets st)
   \<and> (fromPos < 0 \<or> int (length (imageAssets st)) \<le> fromPos \<or> toPos < 0
          \<or> int (length (imageAssets st)) \<le> toPos
        \<longrightarrow> moveImage fromPos toPos st = st)
   \<and> ((\<forall>p \<in> set (pdfFiles st). is_page_permutation p)
        \<longrightarrow> (\<forall>p \<in> set (pdfFiles (togglePageSelection pdf pageIndex shiftKey st)). is_page_permutation p)
          \<and> (\<forall>p \<in> set (pdfFiles (selectAllPages pdf st)). is_page_permutation p)
          \<and> (\<forall>p \<in> set (pdfFiles (clearPageSelection pdf st)). is_page_permutation p))"
proof -
  have sel: "(\<forall>p \<in> set (pdfFiles st). is_page_permutation p)
        \<longrightarrow> (\<forall>p \<in> set (pdfFiles (togglePageSelection pdf pageIndex shiftKey st)). is_page_permutation p)
          \<and> (\<forall>p \<in> set (pdfFiles (selectAllPages pdf st)). is_page_permutation p)
          \<and> (\<forall>p \<in> set (pdfFiles (clearPageSelection pdf st)). is_page_permutation p)"
    unfolding togglePageSelection_def selectAllPages_def clearPageSelection_def Let_def
    using setPageSelection_permutation by blast
  have load: "\<exists>newPdfs. pdfFiles (loadPdfFiles files st) = pdfFiles st @ newPdfs
       \<and> (\<forall>p \<in> set newPdfs. pageOrder p = map int [0..<pageCount p] \<and> is_page_permutation p)"
    unfolding loadPdfFiles_pdfFiles
    by (rule exI [of _ "map (\<lambda>f. new_pdf f (the (in_pages f)))
           (filter (\<lambda>f. is_pdf_input f \<and> in_pages f \<noteq> None) files)"])
       (auto simp: new_pdf_permutation, simp add: new_pdf_def)
  have move: "ids_distinct st \<and> pdf \<in> set (pdfFiles st) \<and> (\<forall>p \<in> set (pdfFiles st). is_page_permutation p)
        \<longrightarrow> (\<forall>p \<in> set (pdfFiles (movePage pdf fromPos toPos st)). is_page_permutation p)
          \<and> (\<forall>p \<in> set (pdfFiles (movePageStep pdf fromPos dir st)). is_page_permutation p)
          \<and> (\<forall>p \<in> set (pdfFiles (onDrop pdf toPos st)). is_page_permutation p)
          \<and> ids_distinct (movePage pdf fromPos toPos st)"
  proof
    assume h: "ids_distinct st \<and> pdf \<in> set (pdfFiles st) \<and> (\<forall>p \<in> set (pdfFiles st). is_page_permutation p)"
    then have all: "\<And>f t. \<forall>p \<in> set (pdfFiles (movePage pdf f t st)). is_page_permutation p"
      using movePage_permutation by blast
    have m1: "\<forall>p \<in> set (pdfFiles (movePage pdf fromPos toPos st)). is_page_permutation p"
      by (rule all)
    have m2: "\<forall>p \<in> set (pdfFiles (movePageStep pdf fromPos dir st)). is_page_permutation p"
      unfolding movePageStep_def by (rule all)
    have m3: "\<forall>p \<in> set (pdfFiles (onDrop pdf toPos st)). is_page_permutation p"
      using onDrop_pdfFiles [of pdf toPos st] all h by auto
    have m4: "ids_distinct (movePage pdf fromPos toPos st)"
      using h by (simp add: ids_distinct_def movePage_ids)
    from m1 m2 m3 m4 show "(\<forall>p \<in> set (pdfFiles (movePage pdf fromPos toPos st)). is_page_permutation p)
          \<and> (\<forall>p \<in> set (pdfFiles (movePageStep pdf fromPos dir st)). is_page_permutation p)
          \<and> (\<forall>p \<in> set (pdfFiles (onDrop pdf toPos st)). is_page_permutation p)
          \<and> ids_distinct (movePage pdf fromPos toPos st)"
      by (intro conjI)
  qed
  have reject: "fromPos < 0 \<or> int (length (pageOrder pdf)) \<le> fromPos \<or> toPos < 0
          \<or> int (length (pageOrder pdf)) \<le> toPos
        \<longrightarrow> movePage pdf fromPos toPos st = st"
    by (auto simp: movePage_def)
  have perm: "is_page_permutation pdf
        \<longrightarrow> distinct (pageOrder pdf) \<and> set (pageOrder pdf) = {0 ..< int (pageCount pdf)}"
    using page_permutation_distinct_set by blast
  have img: "mset (imageAssets (onImageDrop toPos st)) = mset (imageAssets st)"
    using onImageDrop_assets [of toPos st] moveImage_mset by auto
  have reject_img: "fromPos < 0 \<or> int (length (imageAssets st)) \<le> fromPos \<or> toPos < 0
          \<or> int (length (imageAssets st)) \<le> toPos
        \<longrightarrow> moveImage fromPos toPos st = st"
    by (auto simp: moveImage_def)
  show ?thesis
    apply (intro conjI)
            apply (rule load)
           apply (rule move)
          apply (rule reject)
         apply (rule perm)
        apply (rule moveImage_mset)
       apply (simp only: moveImageStep_def moveImage_mset)
      apply (rule img)
     apply (rule reject_img)
    apply (rule sel)
    done
qed

theorem pageOrder_permutation_witness:
  "ids_distinct example_pdf_toolkit \<and> example_pdf \<in> set (pdfFiles example_pdf_toolkit)
   \<and> is_page_permutation example_pdf
   \<and> pageOrder (hd (pdfFiles (movePage example_pdf 0 2 example_pdf_toolkit))) = [1, 2, 0]
   \<and> is_page_permutation (hd (pdfFiles (movePage example_pdf 0 2 example_pdf_toolkit)))
   \<and> movePage example_pdf 0 3 example_pdf_toolkit = example_pdf_toolkit
   \<and> distinct (pageOrder example_pdf)"
proof -
  have a: "ids_distinct example_pdf_toolkit"
    by (simp add: ids_distinct_def example_pdf_toolkit_simps)
  have b: "example_pdf \<in> set (pdfFiles example_pdf_toolkit)"
    by (simp add: example_pdf_toolkit_simps)
  have c: "is_page_permutation example_pdf"
    by (simp add: example_pdf_def new_pdf_permutation)
  have d: "\<forall>p \<in> set (pdfFiles example_pdf_toolkit). is_page_permutation p"
    using c by (simp add: example_pdf_toolkit_simps)
  have f: "int (length (pageOrder example_pdf)) \<le> 3"
    by (simp add: example_pdf_simps)
  note t2 = pageOrder_permutation [where st = example_pdf_toolkit and pdf = example_pdf
      and fromPos = 0 and toPos = 2]
  note t3 = pageOrder_permutation [where st = example_pdf_toolkit and pdf = example_pdf
      and fromPos = 0 and toPos = 3]
  from t2 [THEN conjunct2, THEN conjunct1] a b d
  have "\<forall>p \<in> set (pdfFiles (movePage example_pdf 0 2 example_pdf_toolkit)). is_page_permutation p"
    by blast
  then have g: "is_page_permutation (hd (pdfFiles (movePage example_pdf 0 2 example_pdf_toolkit)))"
    by (simp add: example_movePage)
  from t3 [THEN conjunct2, THEN conjunct2, THEN conjunct1] f
  have h: "movePage example_pdf 0 3 example_pdf_toolkit = example_pdf_toolkit"
    by blast
  from t2 [THEN conjunct2, THEN conjunct2, THEN conjunct2, THEN conjunct1] c
  have i: "distinct (pageOrder example_pdf)"
    by blast
  have j: "pageOrder (hd (pdfFiles (movePage example_pdf 0 2 example_pdf_toolkit))) = [1, 2, 0]"
    by (simp add: example_movePage)
  from a b c j g h i show ?thesis
    by (intro conjI)
qed

subsection \<open>Page selection\<close>

lemma setPageSelection_valid:
  assumes d: "ids_distinct st" and m: "pdf \<in> set (pdfFiles st)"
    and inv: "\<forall>p \<in> set (pdfFiles st). selection_valid p"
    and nxt: "nxt \<subseteq> {0 ..< int (pageCount pdf)}"
    and lst: "case lst of None \<Rightarrow> True | Some l \<Rightarrow> 0 \<le> l \<and> l < int (pageCount pdf)"
  shows "\<forall>p \<in> set (pdfFiles (setPageSelection pdf nxt lst st)). selection_valid p"
proof -
  let ?g = "\<lambda>p. p\<lparr> pageSelection := nxt, lastSelectedIndex := lst \<rparr>"
  from replacePdfById_cases [of "pdf_id pdf" ?g st] show ?thesis
  proof
    assume "replacePdfById (pdf_id pdf) ?g st = st"
    with inv show ?thesis by (simp add: setPageSelection_def)
  next
    assume "\<exists>idx. findIndex (\<lambda>p. pdf_id p = pdf_id pdf) (pdfFiles st) = Some idx
        \<and> replacePdfById (pdf_id pdf) ?g st = st\<lparr> pdfFiles := (pdfFiles st)[idx := ?g (pdfFiles st ! idx)] \<rparr>"
    then obtain idx where fi: "findIndex (\<lambda>p. pdf_id p = pdf_id pdf) (pdfFiles st) = Some idx"
      and eq: "replacePdfById (pdf_id pdf) ?g st = st\<lparr> pdfFiles := (pdfFiles st)[idx := ?g (pdfFiles st ! idx)] \<rparr>"
      by blast
    from d m fi have same: "pdfFiles st ! idx = pdf"
      using findIndex_distinct_id by (simp add: ids_distinct_def)
    from fi have lt: "idx < length (pdfFiles st)"
      using findIndex_Some by fastforce
    have "selection_valid (?g pdf)"
      using nxt lst by (simp add: selection_valid_def split: option.splits)
    with same have "selection_valid (?g (pdfFiles st ! idx))" by simp
    from patch_preserves [OF inv lt, of ?g, OF this] show ?thesis
      by (simp add: setPageSelection_def eq)
  qed
qed

lemma toggle_next_valid:
  assumes sv: "selection_valid pdf" and p: "0 \<le> pageIndex" "pageIndex < int (pageCount pdf)"
  shows "(case (shiftKey, lastSelectedIndex pdf) of
           (True, Some l) \<Rightarrow> pageSelection pdf \<union> {min l pageIndex .. max l pageIndex}
         | _ \<Rightarrow> if pageIndex \<in> pageSelection pdf then pageSelection pdf - {pageIndex}
                else insert pageIndex (pageSelection pdf)) \<subseteq> {0 ..< int (pageCount pdf)}"
  using sv p by (cases shiftKey; cases "lastSelectedIndex pdf") (auto simp: selection_valid_def)

lemma movePage_selection_valid:
  assumes inv: "\<forall>p \<in> set (pdfFiles st). selection_valid p"
  shows "\<forall>p \<in> set (pdfFiles (movePage pdf fromPos toPos st)). selection_valid p"
proof -
  from movePage_cases [of pdf fromPos toPos st] show ?thesis
  proof
    assume "movePage pdf fromPos toPos st = st"
    with inv show ?thesis by simp
  next
    assume "\<exists>idx. 0 \<le> fromPos \<and> fromPos < int (length (pageOrder pdf))
        \<and> findIndex (\<lambda>p. pdf_id p = pdf_id pdf) (pdfFiles st) = Some idx
        \<and> movePage pdf fromPos toPos st
           = st\<lparr> pdfFiles := (pdfFiles st)[idx := (pdfFiles st ! idx)
                 \<lparr> pageOrder := splice_move (nat fromPos) (nat toPos) (pageOrder pdf) \<rparr>] \<rparr>"
    then obtain idx where fi: "findIndex (\<lambda>p. pdf_id p = pdf_id pdf) (pdfFiles st) = Some idx"
      and eq: "movePage pdf fromPos toPos st
           = st\<lparr> pdfFiles := (pdfFiles st)[idx := (pdfFiles st ! idx)
                 \<lparr> pageOrder := splice_move (nat fromPos) (nat toPos) (pageOrder pdf) \<rparr>] \<rparr>"
      by blast
    from fi have lt: "idx < length (pdfFiles st)"
      using findIndex_Some by fastforce
    with inv have "selection_valid (pdfFiles st ! idx)" by simp
    then have "selection_valid ((\<lambda>p. p\<lparr> pageOrder := splice_move (nat fromPos) (nat toPos) (pageOrder pdf) \<rparr>) (pdfFiles st ! idx))"
      by (simp add: selection_valid_def split: option.splits)
    from patch_preserves [OF inv lt, of "\<lambda>p. p\<lparr> pageOrder := splice_move (nat fromPos) (nat toPos) (pageOrder pdf) \<rparr>", OF this]
    show ?thesis
      by (simp add: eq)
  qed
qed

lemma movePage_selection_same:
  "map pageSelection (pdfFiles (movePage pdf fromPos toPos st)) = map pageSelection (pdfFiles st)"
proof -
  from movePage_cases [of pdf fromPos toPos st] show ?thesis
  proof
    assume "movePage pdf fromPos toPos st = st"
    then show ?thesis by simp
  next
    assume "\<exists>idx. 0 \<le> fromPos \<and> fromPos < int (length (pageOrder pdf))
        \<and> findIndex (\<lambda>p. pdf_id p = pdf_id pdf) (pdfFiles st) = Some idx
        \<and> movePage pdf fromPos toPos st
           = st\<lparr> pdfFiles := (pdfFiles st)[idx := (pdfFiles st ! idx)
                 \<lparr> pageOrder := splice_move (nat fromPos) (nat toPos) (pageOrder pdf) \<rparr>] \<rparr>"
    then obtain idx where fi: "findIndex (\<lambda>p. pdf_id p = pdf_id pdf) (pdfFiles st) = Some idx"
      and eq: "movePage pdf fromPos toPos st
           = st\<lparr> pdfFiles := (pdfFiles st)[idx := (pdfFiles st ! idx)
                 \<lparr> pageOrder := splice_move (nat fromPos) (nat toPos) (pageOrder pdf) \<rparr>] \<rparr>"
      by blast
    from fi have lt: "idx < length (pdfFiles st)"
      using findIndex_Some by fastforce
    show ?thesis
      using lt by (simp add: eq map_update list_update_same_conv)
  qed
qed

text \<open>
  Claim C4. In a state whose documents have distinct identifiers and valid selections (the
  selection and the last selected index are page indices of the document),
  \<open>selectAllPages\<close>, \<open>clearPageSelection\<close> and \<open>movePage\<close>, applied to a document of the
  state, leave every selection valid, and \<open>movePage\<close> changes no selection at all. So
  does \<open>togglePageSelection\<close>, with or without the shift key, for a page index the page
  grid offers, that is an element of the document's page order.
\<close>

theorem selection_indices_valid:
  "ids_distinct st \<and> pdf \<in> set (pdfFiles st) \<and> (\<forall>p \<in> set (pdfFiles st). selection_valid p)
   \<longrightarrow> (\<forall>p \<in> set (pdfFiles (selectAllPages pdf st)). selection_valid p)
     \<and> (\<forall>p \<in> set (pdfFiles (clearPageSelection pdf st)). selection_valid p)
     \<and> (\<forall>p \<in> set (pdfFiles (movePage pdf fromPos toPos st)). selection_valid p)
     \<and> map pageSelection (pdfFiles (movePage pdf fromPos toPos st)) = map pageSelection (pdfFiles st)
     \<and> (is_page_permutation pdf \<and> pageIndex \<in> set (pageOrder pdf)
          \<longrightarrow> (\<forall>p \<in> set (pdfFiles (togglePageSelection pdf pageIndex shiftKey st)). selection_valid p))"
proof
  assume h: "ids_distinct st \<and> pdf \<in> set (pdfFiles st) \<and> (\<forall>p \<in> set (pdfFiles st). selection_valid p)"
  then have d: "ids_distinct st" and m: "pdf \<in> set (pdfFiles st)"
    and inv: "\<forall>p \<in> set (pdfFiles st). selection_valid p"
    by blast+
  from inv m have sv: "selection_valid pdf" by blast
  then have lst: "case lastSelectedIndex pdf of None \<Rightarrow> True | Some l \<Rightarrow> 0 \<le> l \<and> l < int (pageCount pdf)"
    by (simp add: selection_valid_def)
  have a: "\<forall>p \<in> set (pdfFiles (selectAllPages pdf st)). selection_valid p"
    unfolding selectAllPages_def
    by (rule setPageSelection_valid [OF d m inv _ lst]) simp
  have b: "\<forall>p \<in> set (pdfFiles (clearPageSelection pdf st)). selection_valid p"
    unfolding clearPageSelection_def
    by (rule setPageSelection_valid [OF d m inv]) simp_all
  have c: "\<forall>p \<in> set (pdfFiles (movePage pdf fromPos toPos st)). selection_valid p"
    using inv by (rule movePage_selection_valid)
  have t: "is_page_permutation pdf \<and> pageIndex \<in> set (pageOrder pdf)
          \<longrightarrow> (\<forall>p \<in> set (pdfFiles (togglePageSelection pdf pageIndex shiftKey st)). selection_valid p)"
  proof
    assume "is_page_permutation pdf \<and> pageIndex \<in> set (pageOrder pdf)"
    then have "pageIndex \<in> {0 ..< int (pageCount pdf)}"
      using page_permutation_distinct_set by blast
    then have p: "0 \<le> pageIndex" "pageIndex < int (pageCount pdf)" by simp_all
    have l: "case Some pageIndex of None \<Rightarrow> True | Some l \<Rightarrow> 0 \<le> l \<and> l < int (pageCount pdf)"
      using p by simp
    show "\<forall>p \<in> set (pdfFiles (togglePageSelection pdf pageIndex shiftKey st)). selection_valid p"
      unfolding togglePageSelection_def Let_def
      by (rule setPageSelection_valid [OF d m inv toggle_next_valid [OF sv p] l])
  qed
  from a b c t movePage_selection_same
  show "(\<forall>p \<in> set (pdfFiles (selectAllPages pdf st)). selection_valid p)
     \<and> (\<forall>p \<in> set (pdfFiles (clearPageSelection pdf st)). selection_valid p)
     \<and> (\<forall>p \<in> set (pdfFiles (movePage pdf fromPos toPos st)). selection_valid p)
     \<and> map pageSelection (pdfFiles (movePage pdf fromPos toPos st)) = map pageSelection (pdfFiles st)
     \<and> (is_page_permutation pdf \<and> pageIndex \<in> set (pageOrder pdf)
          \<longrightarrow> (\<forall>p \<in> set (pdfFiles (togglePageSelection pdf pageIndex shiftKey st)). selection_valid p))"
    by (intro conjI)
qed

theorem selection_indices_valid_witness:
  "ids_distinct example_pdf_toolkit \<and> example_pdf \<in> set (pdfFiles example_pdf_toolkit)
   \<and> selection_valid example_pdf \<and> is_page_permutation example_pdf
   \<and> 2 \<in> set (pageOrder example_pdf)
   \<and> pageSelection (hd (pdfFiles (togglePageSelection example_pdf 2 False example_pdf_toolkit))) = {2}
   \<and> selection_valid (hd (pdfFiles (togglePageSelection example_pdf 2 False example_pdf_toolkit)))
   \<and> selection_valid (hd (pdfFiles (selectAllPages example_pdf example_pdf_toolkit)))"
proof -
  have a: "ids_distinct example_pdf_toolkit"
    by (simp add: ids_distinct_def example_pdf_toolkit_simps)
  have b: "example_pdf \<in> set (pdfFiles example_pdf_toolkit)"
    by (simp add: example_pdf_toolkit_simps)
  have c: "selection_valid example_pdf"
    by (simp add: example_pdf_def new_pdf_selection)
  have d: "\<forall>p \<in> set (pdfFiles example_pdf_toolkit). selection_valid p"
    using c by (simp add: example_pdf_toolkit_simps)
  have e: "is_page_permutation example_pdf"
    by (simp add: example_pdf_def new_pdf_permutation)
  have f: "2 \<in> set (pageOrder example_pdf)"
    by (simp add: example_pdf_simps)
  have g: "pdfFiles (togglePageSelection example_pdf 2 False example_pdf_toolkit)
             = [example_pdf\<lparr> pageSelection := {2}, lastSelectedIndex := Some 2 \<rparr>]"
    by (simp add: togglePageSelection_def setPageSelection_def replacePdfById_def
        example_pdf_simps example_pdf_toolkit_simps)
  have h: "pdfFiles (selectAllPages example_pdf example_pdf_toolkit)
             = [example_pdf\<lparr> pageSelection := {0 ..< 3}, lastSelectedIndex := None \<rparr>]"
    by (simp add: selectAllPages_def setPageSelection_def replacePdfById_def
        example_pdf_simps example_pdf_toolkit_simps)
  note t = selection_indices_valid [where st = example_pdf_toolkit and pdf = example_pdf
      and pageIndex = 2 and shiftKey = False, THEN mp, OF conjI [OF a conjI [OF b d]]]
  from t [THEN conjunct1]
  have i: "selection_valid (hd (pdfFiles (selectAllPages example_pdf example_pdf_toolkit)))"
    by (simp add: h)
  from t [THEN conjunct2, THEN conjunct2, THEN conjunct2, THEN conjunct2, THEN mp, OF conjI [OF e f]]
  have j: "selection_valid (hd (pdfFiles (togglePageSelection example_pdf 2 False example_pdf_toolkit)))"
    by (simp add: g)
  have k: "pageSelection (hd (pdfFiles (togglePageSelection example_pdf 2 False example_pdf_toolkit))) = {2}"
    by (simp add: g)
  from a b c e f k j i show ?thesis
    by (intro conjI)
qed


subsection \<open>Exporting the selected pages\<close>

lemma find_update: "findIndex P xs = Some i \<Longrightarrow> P y \<Longrightarrow> find P (xs[i := y]) = Some y"
proof (induction xs arbitrary: i)
  case Nil
  then show ?case by simp
next
  case (Cons x xs)
  then show ?case by (cases "P x"; cases i) auto
qed

lemma export_selected_filter:
  assumes "pageSelection pdf \<noteq> {}"
    and "list_all (\<lambda>i. 0 \<le> i \<and> i < int (pageCount pdf))
           (filter (\<lambda>idx. idx \<in> pageSelection pdf) (pageOrder pdf))"
  shows "\<exists>name. snd (exportSelectedPages None pdf st)
           = Some (name, filter (\<lambda>idx. idx \<in> pageSelection pdf) (pageOrder pdf))"
  using assms by (simp add: exportSelectedPages_def Let_def copyPages_def)

lemma export_nothing_selected:
  "pageSelection pdf = {} \<Longrightarrow>
     exportSelectedPages lib_error pdf st = (st\<lparr> pdf_errorMessage := ''Select pages to export.'' \<rparr>, None)"
  by (simp add: exportSelectedPages_def)

lemma page_permutation_length: "is_page_permutation p \<Longrightarrow> length (pageOrder p) = pageCount p"
proof -
  assume "is_page_permutation p"
  then have "mset (pageOrder p) = mset (map int [0..<pageCount p])"
    by (simp add: is_page_permutation_def)
  then have "length (pageOrder p) = length (map int [0..<pageCount p])"
    by (rule mset_eq_length)
  then show ?thesis by simp
qed

lemma selectAllPages_entry:
  assumes d: "ids_distinct st" and m: "pdf \<in> set (pdfFiles st)"
  shows "getPdfById (pdf_id pdf) (selectAllPages pdf st)
           = Some (pdf\<lparr> pageSelection := {0 ..< int (pageCount pdf)},
                       lastSelectedIndex := lastSelectedIndex pdf \<rparr>)"
proof -
  from m obtain idx where fi: "findIndex (\<lambda>p. pdf_id p = pdf_id pdf) (pdfFiles st) = Some idx"
    using findIndex_member by blast
  with d m have same: "pdfFiles st ! idx = pdf"
    using findIndex_distinct_id by (simp add: ids_distinct_def)
  have "pdfFiles (selectAllPages pdf st)
          = (pdfFiles st)[idx := pdf\<lparr> pageSelection := {0 ..< int (pageCount pdf)},
                                     lastSelectedIndex := lastSelectedIndex pdf \<rparr>]"
    by (simp add: selectAllPages_def setPageSelection_def replacePdfById_def fi same)
  then show ?thesis
    using find_update [OF fi, of "pdf\<lparr> pageSelection := {0 ..< int (pageCount pdf)},
                                     lastSelectedIndex := lastSelectedIndex pdf \<rparr>"]
    by (simp add: getPdfById_def)
qed

text \<open>
  Claim C2, as amended. For a document of the state with at least one page, whose page
  order is a permutation of its page indices: after \<open>selectAllPages\<close> the live entry of
  the document selects every page index, and \<open>exportSelectedPages\<close> on it (the PDF
  library not failing) downloads the pages of the page order whose index is selected,
  which is the whole page order: as many pages as the document has.
\<close>

theorem selectAll_export_page_count:
  "ids_distinct st \<and> pdf \<in> set (pdfFiles st) \<and> is_page_permutation pdf \<and> 0 < pageCount pdf
   \<longrightarrow> (\<exists>pdf' name.
          getPdfById (pdf_id pdf) (selectAllPages pdf st) = Some pdf'
        \<and> pageSelection pdf' = {0 ..< int (pageCount pdf)}
        \<and> pageOrder pdf' = pageOrder pdf
        \<and> snd (exportSelectedPages None pdf' (selectAllPages pdf st))
            = Some (name, filter (\<lambda>idx. idx \<in> pageSelection pdf') (pageOrder pdf'))
        \<and> filter (\<lambda>idx. idx \<in> pageSelection pdf') (pageOrder pdf') = pageOrder pdf
        \<and> length (pageOrder pdf) = pageCount pdf)"
proof
  assume h: "ids_distinct st \<and> pdf \<in> set (pdfFiles st) \<and> is_page_permutation pdf \<and> 0 < pageCount pdf"
  define pdf' where "pdf' = pdf\<lparr> pageSelection := {0 ..< int (pageCount pdf)},
                                lastSelectedIndex := lastSelectedIndex pdf \<rparr>"
  from h have g: "getPdfById (pdf_id pdf) (selectAllPages pdf st) = Some pdf'"
    unfolding pdf'_def using selectAllPages_entry by blast
  have s: "pageSelection pdf' = {0 ..< int (pageCount pdf)}" and o: "pageOrder pdf' = pageOrder pdf"
    and n: "pageCount pdf' = pageCount pdf"
    by (simp_all add: pdf'_def)
  from h have st: "set (pageOrder pdf) = {0 ..< int (pageCount pdf)}"
    using page_permutation_distinct_set by blast
  then have f: "filter (\<lambda>idx. idx \<in> pageSelection pdf') (pageOrder pdf') = pageOrder pdf"
    by (simp add: s o)
  from h have ne: "pageSelection pdf' \<noteq> {}"
    by (simp add: s)
  have "list_all (\<lambda>i. 0 \<le> i \<and> i < int (pageCount pdf')) (pageOrder pdf)"
    using st by (simp add: n list_all_iff)
  then have "list_all (\<lambda>i. 0 \<le> i \<and> i < int (pageCount pdf'))
           (filter (\<lambda>idx. idx \<in> pageSelection pdf') (pageOrder pdf'))"
    by (simp only: f)
  from export_selected_filter [OF ne this, of "selectAllPages pdf st"]
  obtain name where e: "snd (exportSelectedPages None pdf' (selectAllPages pdf st))
            = Some (name, filter (\<lambda>idx. idx \<in> pageSelection pdf') (pageOrder pdf'))"
    by blast
  from h have l: "length (pageOrder pdf) = pageCount pdf"
    using page_permutation_length by blast
  from g s o e f l show "\<exists>pdf' name.
          getPdfById (pdf_id pdf) (selectAllPages pdf st) = Some pdf'
        \<and> pageSelection pdf' = {0 ..< int (pageCount pdf)}
        \<and> pageOrder pdf' = pageOrder pdf
        \<and> snd (exportSelectedPages None pdf' (selectAllPages pdf st))
            = Some (name, filter (\<lambda>idx. idx \<in> pageSelection pdf') (pageOrder pdf'))
        \<and> filter (\<lambda>idx. idx \<in> pageSelection pdf') (pageOrder pdf') = pageOrder pdf
        \<and> length (pageOrder pdf) = pageCount pdf"
    by blast
qed

lemma example_selectAll_export:
  "snd (exportSelectedPages None
          (example_pdf\<lparr> pageSelection := {0 ..< 3}, lastSelectedIndex := None \<rparr>)
          (selectAllPages example_pdf example_pdf_toolkit))
     = Some (''Doc-pages-1-2-3.private.pdf'', [0, 1, 2])"
proof -
  have n: "deriveFileName ''Doc.PDF'' ''pdf'' (Some ''pages-1-2-3.private'') = ''Doc-pages-1-2-3.private.pdf''"
    by code_simp
  have i: "int_string 1 = ''1''" "int_string 2 = ''2''" "int_string 3 = ''3''"
    by (simp_all add: int_string_def digits.simps)
  have p: "pdf_addPrivateSuffix (selectAllPages example_pdf example_pdf_toolkit) = True"
    by (simp add: selectAllPages_def setPageSelection_def replacePdfById_def
        example_pdf_simps example_pdf_toolkit_simps)
  show ?thesis
    by (simp add: exportSelectedPages_def Let_def copyPages_def example_pdf_simps p i n)
qed

theorem selectAll_export_page_count_witness:
  "ids_distinct example_pdf_toolkit \<and> example_pdf \<in> set (pdfFiles example_pdf_toolkit)
   \<and> is_page_permutation example_pdf \<and> 0 < pageCount example_pdf
   \<and> getPdfById ''u1'' (selectAllPages example_pdf example_pdf_toolkit)
       = Some (example_pdf\<lparr> pageSelection := {0 ..< 3}, lastSelectedIndex := None \<rparr>)
   \<and> snd (exportSelectedPages None
            (example_pdf\<lparr> pageSelection := {0 ..< 3}, lastSelectedIndex := None \<rparr>)
            (selectAllPages example_pdf example_pdf_toolkit))
       = Some (''Doc-pages-1-2-3.private.pdf'', [0, 1, 2])
   \<and> length (pageOrder example_pdf) = 3"
proof -
  have a: "ids_distinct example_pdf_toolkit"
    by (simp add: ids_distinct_def example_pdf_toolkit_simps)
  have b: "example_pdf \<in> set (pdfFiles example_pdf_toolkit)"
    by (simp add: example_pdf_toolkit_simps)
  have c: "is_page_permutation example_pdf"
    by (simp add: example_pdf_def new_pdf_permutation)
  have d: "0 < pageCount example_pdf"
    by (simp add: example_pdf_simps)
  from selectAll_export_page_count [where st = example_pdf_toolkit and pdf = example_pdf,
      THEN mp, OF conjI [OF a conjI [OF b conjI [OF c d]]]]
  obtain pdf' name where
    g: "getPdfById (pdf_id example_pdf) (selectAllPages example_pdf example_pdf_toolkit) = Some pdf'"
    and l: "length (pageOrder example_pdf) = pageCount example_pdf"
    by blast
  have e: "getPdfById ''u1'' (selectAllPages example_pdf example_pdf_toolkit)
       = Some (example_pdf\<lparr> pageSelection := {0 ..< 3}, lastSelectedIndex := None \<rparr>)"
    by (simp add: getPdfById_def selectAllPages_def setPageSelection_def replacePdfById_def
        example_pdf_simps example_pdf_toolkit_simps)
  from l have l3: "length (pageOrder example_pdf) = 3"
    by (simp add: example_pdf_simps)
  from a b c d e example_selectAll_export l3 show ?thesis
    by (intro conjI)
qed

lemma zero_page_toolkit_pdfFiles:
  "pdfFiles zero_page_toolkit = [new_pdf zero_page_input 0]"
  by (simp add: zero_page_toolkit_def loadPdfFiles_def initial_pdf_toolkit_def is_pdf_input_def
      zero_page_input_def)

text \<open>
  Claim C2 as first stated fails for a loaded PDF in which the library finds no page:
  selecting all pages leaves the selection empty, and \<open>exportSelectedPages\<close> then reports
  an error and produces no document.
\<close>

theorem selectAll_export_zero_pages_counterexample:
  "pageCount (hd (pdfFiles zero_page_toolkit)) = 0
   \<and> pageSelection (hd (pdfFiles (selectAllPages (hd (pdfFiles zero_page_toolkit)) zero_page_toolkit))) = {}
   \<and> snd (exportSelectedPages None
            (hd (pdfFiles (selectAllPages (hd (pdfFiles zero_page_toolkit)) zero_page_toolkit)))
            (selectAllPages (hd (pdfFiles zero_page_toolkit)) zero_page_toolkit)) = None
   \<and> pdf_errorMessage (fst (exportSelectedPages None
            (hd (pdfFiles (selectAllPages (hd (pdfFiles zero_page_toolkit)) zero_page_toolkit)))
            (selectAllPages (hd (pdfFiles zero_page_toolkit)) zero_page_toolkit)))
       = ''Select pages to export.''"
proof -
  have a: "pdfFiles (selectAllPages (new_pdf zero_page_input 0) zero_page_toolkit)
             = [new_pdf zero_page_input 0]"
    by (simp add: selectAllPages_def setPageSelection_def replacePdfById_def
        zero_page_toolkit_pdfFiles new_pdf_def)
  have b: "pageSelection (new_pdf zero_page_input 0) = {}" "pageCount (new_pdf zero_page_input 0) = 0"
    by (simp_all add: new_pdf_def)
  show ?thesis
    by (simp add: a b zero_page_toolkit_pdfFiles export_nothing_selected)
qed

subsection \<open>Rounding to a double\<close>

text \<open>
  The exponent found by \<^const>\<open>binade\<close> is the right one, so the scaled significand lies
  between \<open>2^52\<close> and \<open>2^53\<close>; rounding to a double keeps a positive number positive and
  keeps the order of two positive numbers.
\<close>

lemma bitlen_pow_bounds:
  assumes "0 < n"
  shows "(2 :: rat) ^ nat (bitlen n - 1) \<le> of_int n" "of_int n + 1 \<le> (2 :: rat) ^ nat (bitlen n)"
    "0 \<le> bitlen n - 1"
proof -
  from bitlen_bounds [OF assms] have a: "2 ^ nat (bitlen n - 1) \<le> n" and b: "n < 2 ^ nat (bitlen n)"
    by simp_all
  from a have "(of_int (2 ^ nat (bitlen n - 1)) :: rat) \<le> of_int n"
    by (simp only: of_int_le_iff)
  then show "(2 :: rat) ^ nat (bitlen n - 1) \<le> of_int n" by simp
  from b have "n + 1 \<le> 2 ^ nat (bitlen n)" by simp
  then have "(of_int (n + 1) :: rat) \<le> of_int (2 ^ nat (bitlen n))"
    by (simp only: of_int_le_iff)
  then show "of_int n + 1 \<le> (2 :: rat) ^ nat (bitlen n)" by simp
  from assms show "0 \<le> bitlen n - 1"
    using bitlen_eq_zero_iff [of n] bitlen_nonneg [of n] by linarith
qed

lemma binade_bounds:
  assumes x: "0 < x"
  shows "2 powi (binade x) \<le> x" "x < 2 powi (binade x + 1)"
proof -
  have "2 powi (binade x) \<le> x \<and> x < 2 powi (binade x + 1)"
  proof (cases "1 \<le> x")
    case True
    define n where "n = \<lfloor>x\<rfloor>"
    have n: "0 < n" using True by (simp add: n_def)
    have e: "binade x = bitlen n - 1" using True by (simp add: binade_def n_def)
    note b = bitlen_pow_bounds [OF n]
    have nx: "of_int n \<le> x" "x < of_int n + 1" unfolding n_def by linarith+
    have p1: "(2 :: rat) powi (bitlen n - 1) = 2 ^ nat (bitlen n - 1)"
      using b(3) by (simp add: power_int_def)
    have "bitlen n - 1 + 1 = bitlen n" by simp
    have p2: "(2 :: rat) powi (bitlen n - 1 + 1) = 2 ^ nat (bitlen n)"
      using b(3) by (simp add: power_int_def)
    show ?thesis
      unfolding e p1 p2 using b nx by linarith
  next
    case False
    define m where "m = \<lfloor>1 / x\<rfloor>"
    define k where "k = bitlen m - 1"
    have ix: "1 < 1 / x" using False x by simp
    have m: "0 < m" using ix by (simp add: m_def)
    note b = bitlen_pow_bounds [OF m]
    have k0: "0 \<le> k" using b(3) by (simp add: k_def)
    have mx: "of_int m \<le> 1 / x" "1 / x < of_int m + 1" unfolding m_def by linarith+
    have lo: "(2 :: rat) ^ nat k \<le> 1 / x" unfolding k_def by (rule order_trans [OF b(1) mx(1)])
    have "nat (bitlen m) = Suc (nat k)" using k0 by (simp add: k_def)
    then have "of_int m + 1 \<le> (2 :: rat) ^ Suc (nat k)" using b(2) by (simp only:)
    with mx(2) have hi: "1 / x < (2 :: rat) ^ Suc (nat k)" by (rule less_le_trans)
    have lo': "x * 2 ^ nat k \<le> 1" using lo x by (simp add: field_simps)
    have hi': "1 < x * 2 ^ Suc (nat k)" using hi x by (simp add: field_simps)
    show ?thesis
    proof (cases "x * 2 ^ nat k = 1")
      case True
      then have e: "binade x = - k" using False by (simp add: binade_def m_def k_def Let_def)
      have xv: "x = 1 / 2 ^ nat k" using True by (simp add: field_simps)
      have p1: "(2 :: rat) powi (- k) = 1 / 2 ^ nat k"
        using k0 by (cases "k = 0") (simp_all add: power_int_def field_simps)
      have "x < 2 * x" using x by simp
      have "(2 :: rat) powi (- k + 1) = 2 powi (- k) * 2"
        using power_int_add [of "2 :: rat" "- k" 1] by simp
      then have p2: "(2 :: rat) powi (- k + 1) = 2 * x" using p1 xv by simp
      have p1x: "(2 :: rat) powi (- k) = x" using p1 xv by simp
      show ?thesis unfolding e p2 p1x using x by simp
    next
      case ne: False
      then have e: "binade x = - k - 1" using False by (simp add: binade_def m_def k_def Let_def)
      have p1: "(2 :: rat) powi (- k - 1) = 1 / 2 ^ Suc (nat k)"
        using k0 by (simp add: power_int_def field_simps nat_add_distrib power_add)
      have p2: "(2 :: rat) powi (- k - 1 + 1) = 1 / 2 ^ nat k"
        using k0 by (cases "k = 0") (simp_all add: power_int_def field_simps)
      have a: "1 / 2 ^ Suc (nat k) \<le> x" using hi' by (simp add: field_simps)
      have "x * 2 ^ nat k < 1" using lo' ne by simp
      then have b': "x < 1 / 2 ^ nat k" by (simp add: field_simps)
      show ?thesis unfolding e p1 p2 using a b' by simp
    qed
  qed
  then show "2 powi (binade x) \<le> x" "x < 2 powi (binade x + 1)" by simp_all
qed

lemma round_half_even_bounds:
  "of_int (round_half_even x) \<le> x + 1 / 2" "x - 1 / 2 \<le> of_int (round_half_even x)"
  by (simp_all add: round_half_even_def Let_def; linarith)+

lemma round_half_even_of_int [simp]: "round_half_even (of_int n) = n"
  by (simp add: round_half_even_def)

lemma round_half_even_mono:
  assumes "x \<le> y"
  shows "round_half_even x \<le> round_half_even y"
proof (rule ccontr)
  assume "\<not> round_half_even x \<le> round_half_even y"
  then have lt: "round_half_even y + 1 \<le> round_half_even x" by simp
  then have "(of_int (round_half_even y + 1) :: rat) \<le> of_int (round_half_even x)"
    by (simp only: of_int_le_iff)
  then have c: "(of_int (round_half_even y) :: rat) + 1 \<le> of_int (round_half_even x)" by simp
  from round_half_even_bounds(1) [of x] round_half_even_bounds(2) [of y] c assms
  have xy: "x = y" and rx: "of_int (round_half_even x) = x + 1 / 2" by linarith+
  from lt xy show False by simp
qed


lemma fl_positive_eq:
  "0 < x \<Longrightarrow>
     fl x = of_int (round_half_even (x * 2 powi (52 - binade x))) * 2 powi (binade x - 52)"
  by (simp add: fl_def Let_def)

lemma scaled_range:
  assumes x: "0 < x"
  shows "of_int (2 ^ 52) \<le> x * 2 powi (52 - binade x)" "x * 2 powi (52 - binade x) \<le> of_int (2 ^ 53)"
proof -
  have p: "(0 :: rat) < 2 powi (52 - binade x)" by (simp add: zero_less_power_int)
  have a: "2 powi (binade x) * 2 powi (52 - binade x) = (2 :: rat) powi 52"
    using power_int_add [of "2 :: rat" "binade x" "52 - binade x"] by simp
  have b: "2 powi (binade x + 1) * 2 powi (52 - binade x) = (2 :: rat) powi 53"
    using power_int_add [of "2 :: rat" "binade x + 1" "52 - binade x"] by simp
  have c: "(2 :: rat) powi 52 = of_int (2 ^ 52)" "(2 :: rat) powi 53 = of_int (2 ^ 53)"
    by (simp_all add: power_int_def)
  from binade_bounds(1) [OF x] p
  have "2 powi (binade x) * 2 powi (52 - binade x) \<le> x * 2 powi (52 - binade x)"
    by (simp only: mult_le_cancel_right_pos)
  then show "of_int (2 ^ 52) \<le> x * 2 powi (52 - binade x)"
    by (simp only: a c)
  from binade_bounds(2) [OF x] p
  have "x * 2 powi (52 - binade x) < 2 powi (binade x + 1) * 2 powi (52 - binade x)"
    by (simp only: mult_less_cancel_right_pos)
  then show "x * 2 powi (52 - binade x) \<le> of_int (2 ^ 53)"
    by (simp only: b c)
qed

lemma fl_range:
  assumes x: "0 < x"
  shows "2 powi (binade x) \<le> fl x" "fl x \<le> 2 powi (binade x + 1)"
proof -
  define m where "m = round_half_even (x * 2 powi (52 - binade x))"
  have p: "(0 :: rat) < 2 powi (binade x - 52)" by (simp add: zero_less_power_int)
  have f: "fl x = of_int m * 2 powi (binade x - 52)"
    using x by (simp add: fl_positive_eq m_def)
  from round_half_even_mono [OF scaled_range(1) [OF x]] have lo: "2 ^ 52 \<le> m"
    by (simp only: round_half_even_of_int m_def)
  from round_half_even_mono [OF scaled_range(2) [OF x]] have hi: "m \<le> 2 ^ 53"
    by (simp only: round_half_even_of_int m_def)
  have a: "(2 :: rat) powi 52 * 2 powi (binade x - 52) = 2 powi (binade x)"
    using power_int_add [of "2 :: rat" 52 "binade x - 52"] by simp
  have b: "(2 :: rat) powi 53 * 2 powi (binade x - 52) = 2 powi (binade x + 1)"
  proof -
    have "(2 :: rat) powi (53 + (binade x - 52)) = 2 powi 53 * 2 powi (binade x - 52)"
      by (rule power_int_add) simp
    moreover have "53 + (binade x - 52) = binade x + 1" by simp
    ultimately show ?thesis by (simp only:)
  qed
  have c: "(2 :: rat) powi 52 = of_int (2 ^ 52)" "(2 :: rat) powi 53 = of_int (2 ^ 53)"
    by (simp_all add: power_int_def)
  from lo have "(of_int (2 ^ 52) :: rat) \<le> of_int m" by (simp only: of_int_le_iff)
  with p have "(of_int (2 ^ 52) :: rat) * 2 powi (binade x - 52) \<le> of_int m * 2 powi (binade x - 52)"
    by (simp only: mult_le_cancel_right_pos)
  then show "2 powi (binade x) \<le> fl x"
    by (simp only: f a [symmetric] c)
  from hi have "(of_int m :: rat) \<le> of_int (2 ^ 53)" by (simp only: of_int_le_iff)
  with p have "(of_int m :: rat) * 2 powi (binade x - 52) \<le> of_int (2 ^ 53) * 2 powi (binade x - 52)"
    by (simp only: mult_le_cancel_right_pos)
  then show "fl x \<le> 2 powi (binade x + 1)"
    by (simp only: f b [symmetric] c)
qed

lemma fl_positive:
  assumes "0 < x"
  shows "0 < fl x"
proof -
  have "(0 :: rat) < 2 powi (binade x)" by simp
  then show ?thesis using fl_range(1) [OF assms] by (rule less_le_trans)
qed

lemma fl_mono:
  assumes x: "0 < x" and xy: "x \<le> y"
  shows "fl x \<le> fl y"
proof -
  have y: "0 < y" using x xy by simp
  have "2 powi (binade x) \<le> x" by (rule binade_bounds(1) [OF x])
  also note xy
  also have "y < 2 powi (binade y + 1)" by (rule binade_bounds(2) [OF y])
  finally have "(2 :: rat) powi (binade x) < 2 powi (binade y + 1)" .
  then have "binade x < binade y + 1"
    using power_int_increasing [of "binade y + 1" "binade x" "2 :: rat"] by (cases "binade x < binade y + 1") simp_all
  then consider "binade x = binade y" | "binade x + 1 \<le> binade y" by linarith
  then show ?thesis
  proof cases
    case 1
    have p: "(0 :: rat) < 2 powi (52 - binade y)" "(0 :: rat) < 2 powi (binade y - 52)"
      by (simp_all add: zero_less_power_int)
    from xy p(1) have "x * 2 powi (52 - binade y) \<le> y * 2 powi (52 - binade y)"
      by (simp only: mult_le_cancel_right_pos)
    then have "round_half_even (x * 2 powi (52 - binade y)) \<le> round_half_even (y * 2 powi (52 - binade y))"
      by (rule round_half_even_mono)
    then have "(of_int (round_half_even (x * 2 powi (52 - binade y))) :: rat)
        \<le> of_int (round_half_even (y * 2 powi (52 - binade y)))"
      by (simp only: of_int_le_iff)
    with p(2) have "(of_int (round_half_even (x * 2 powi (52 - binade y))) :: rat) * 2 powi (binade y - 52)
        \<le> of_int (round_half_even (y * 2 powi (52 - binade y))) * 2 powi (binade y - 52)"
      by (simp only: mult_le_cancel_right_pos)
    then show ?thesis
      by (simp only: fl_positive_eq [OF x] fl_positive_eq [OF y] 1)
  next
    case 2
    have "fl x \<le> 2 powi (binade x + 1)" by (rule fl_range(2) [OF x])
    also have "(2 :: rat) powi (binade x + 1) \<le> 2 powi (binade y)"
      using 2 by (intro power_int_increasing) simp_all
    also have "2 powi (binade y) \<le> fl y" by (rule fl_range(1) [OF y])
    finally show ?thesis .
  qed
qed

text \<open>
  The rounded number is the scaled significand, an integer between \<open>2^52\<close> and \<open>2^53\<close>,
  times the power of two; it lies within half a unit in the last place of the number
  rounded, and an integer up to \<open>2^53\<close> is left as it is.
\<close>

lemma fl_nearest:
  assumes x: "0 < x"
  shows "\<bar>fl x - x\<bar> \<le> 2 powi (binade x - 53)"
proof -
  define s where "s = x * 2 powi (52 - binade x)"
  define m where "m = round_half_even s"
  have p: "(0 :: rat) < 2 powi (binade x - 52)" by simp
  have inv: "(2 :: rat) powi (52 - binade x) * 2 powi (binade x - 52) = 1"
  proof -
    have "(2 :: rat) powi ((52 - binade x) + (binade x - 52)) = 2 powi (52 - binade x) * 2 powi (binade x - 52)"
      by (rule power_int_add) simp
    then show ?thesis by simp
  qed
  have half: "(2 :: rat) powi (binade x - 53) = 2 powi (binade x - 52) * (1 / 2)"
  proof -
    have "(2 :: rat) powi ((binade x - 52) + (- 1)) = 2 powi (binade x - 52) * 2 powi (- 1)"
      by (rule power_int_add) simp
    moreover have "(binade x - 52) + (- 1) = binade x - 53" by simp
    moreover have "(2 :: rat) powi (- 1) = 1 / 2" by (simp add: power_int_def)
    ultimately show ?thesis by (simp only:)
  qed
  have xs: "x = s * 2 powi (binade x - 52)"
    using inv by (simp add: s_def mult.assoc)
  have f: "fl x = of_int m * 2 powi (binade x - 52)"
    using x by (simp add: fl_positive_eq m_def s_def)
  have "fl x - x = (of_int m - s) * 2 powi (binade x - 52)"
    by (subst xs, subst f) (simp add: algebra_simps)
  then have "\<bar>fl x - x\<bar> = \<bar>of_int m - s\<bar> * 2 powi (binade x - 52)"
    using p by (simp add: abs_mult)
  moreover have "\<bar>of_int m - s\<bar> \<le> 1 / 2"
    using round_half_even_bounds [of s] unfolding m_def by linarith
  ultimately have "\<bar>fl x - x\<bar> \<le> 1 / 2 * 2 powi (binade x - 52)"
    using p by (simp add: mult_right_mono)
  then show ?thesis
    by (simp add: half)
qed

lemma fl_of_int:
  assumes n: "0 < n" "n \<le> 2 ^ 53"
  shows "fl (of_int n) = of_int n"
proof -
  define x :: rat where "x = of_int n"
  define e where "e = binade x"
  have x: "0 < x" using n by (simp add: x_def)
  have "2 powi e \<le> x" unfolding e_def by (rule binade_bounds(1) [OF x])
  also have "x \<le> of_int (2 ^ 53)" unfolding x_def using n(2) by (simp only: of_int_le_iff)
  also have "(of_int (2 ^ 53) :: rat) = 2 powi 53" by (simp add: power_int_def)
  finally have "(2 :: rat) powi e \<le> 2 powi 53" .
  then have e53: "e \<le> 53"
    using power_int_strict_increasing [of 53 e "2 :: rat"] by (cases "e \<le> 53") simp_all
  have inv: "(2 :: rat) powi (52 - e) * 2 powi (e - 52) = 1"
  proof -
    have "(2 :: rat) powi ((52 - e) + (e - 52)) = 2 powi (52 - e) * 2 powi (e - 52)"
      by (rule power_int_add) simp
    then show ?thesis by simp
  qed
  show ?thesis
  proof (cases "e \<le> 52")
    case True
    then have "(2 :: rat) powi (52 - e) = of_int (2 ^ nat (52 - e))"
      by (simp add: power_int_def)
    then have "x * 2 powi (52 - e) = of_int (n * 2 ^ nat (52 - e))"
      by (simp add: x_def)
    then have "round_half_even (x * 2 powi (52 - e)) = n * 2 ^ nat (52 - e)"
      by (simp only: round_half_even_of_int)
    then have "fl x = of_int (n * 2 ^ nat (52 - e)) * 2 powi (e - 52)"
      using x by (simp add: fl_positive_eq e_def)
    also have "\<dots> = x * (2 powi (52 - e) * 2 powi (e - 52))"
      using True by (simp add: x_def power_int_def)
    finally show ?thesis by (simp add: inv x_def)
  next
    case False
    with e53 have e: "e = 53" by simp
    have "(2 :: rat) powi 53 \<le> x" using \<open>2 powi e \<le> x\<close> by (simp only: e)
    then have "(of_int (2 ^ 53) :: rat) \<le> of_int n" by (simp add: power_int_def x_def)
    then have "2 ^ 53 \<le> n" by (simp only: of_int_le_iff)
    with n(2) have nv: "n = 2 ^ 53" by simp
    have "fl 9007199254740992 = 9007199254740992" by code_simp
    then show ?thesis by (simp add: nv)
  qed
qed

text \<open>Quotients and products that a double holds exactly, for the example states.\<close>

lemma double_values:
  "fl 8192 = 8192"
  "fdiv 4000 2000 = 2" "fdiv 4000 2 = 2000" "fmul 8192 2 = 16384" "fmul 2000 2 = 4000"
  "fdiv 8192 2 = 4096"
  "fdiv 16384 1 = 16384" "fdiv 8192 16384 = 1 / 2" "fdiv 8192 1 = 8192"
  "fmul 16384 (1 / 2) = 8192" "fmul 1 (1 / 2) = 1 / 2"
  by code_simp+

text \<open>
  Quotients that a double does not hold exactly: the double nearest to a third and to
  0.85, a paired height and a paired width that the rounding of the ratio moves below
  the half (the exact values are 59.5 and 7.5), and a scaled width that it moves below the
  integer (the exact value is 8192).
\<close>

lemma rounded_values:
  "fdiv 1 3 = 6004799503160661 / 2 ^ 54"
  "fl (85 / 100) = 7656119366529843 / 2 ^ 53"
  "js_round (fdiv 42 (fdiv 600 850)) = 59" "js_round (42 / (600 / 850)) = 60"
  "js_round (fmul 55 (fdiv 3 22)) = 7" "js_round (55 * (3 / 22)) = 8"
  "js_floor (fmul 8474 (min (fdiv 8192 8474) (fdiv 8192 3000))) = 8191"
  by code_simp+

lemma scaled_width_below: "js_floor (fmul 8474 (fit_scale 8474 3000)) = 8191"
  using rounded_values(7) by (simp add: fit_scale_def MAX_DIMENSION_def)


subsection \<open>Evaluating rounding\<close>

lemma floor_rat_numeral [simp]: "\<lfloor>(numeral a / numeral b :: rat)\<rfloor> = numeral a div numeral b"
  by (metis floor_divide_of_int_eq of_int_numeral)

lemma js_round_of_int [simp]: "js_round (of_int n) = n"
proof -
  have "(of_int n :: rat) + 1 / 2 = of_int (2 * n + 1) / of_int 2"
    by (simp add: field_simps)
  then have "js_round (of_int n) = (2 * n + 1) div 2"
    unfolding js_round_def by (simp only: floor_divide_of_int_eq)
  then show ?thesis by simp
qed

lemma floor_rat_one_numeral [simp]: "\<lfloor>(1 / numeral b :: rat)\<rfloor> = 1 div numeral b"
  by (metis floor_divide_of_int_eq of_int_1 of_int_numeral)

lemma js_round_numeral [simp]: "js_round (numeral n) = numeral n"
  using js_round_of_int [of "numeral n"] by simp

subsection \<open>Releasing resources\<close>

lemma remove1_appended: "x \<notin> set xs \<Longrightarrow> remove1 x (xs @ [x]) = xs"
  by (simp add: remove1_append)

lemma downloadBlob_fields:
  "body_children (downloadBlob blb filename b) = remove1 (next_node b) (body_children b @ [next_node b])"
  "object_urls (downloadBlob blb filename b) = insert (next_url b) (object_urls b) - {next_url b}"
  "downloads (downloadBlob blb filename b) = downloads b @ [(next_url b, filename)]"
  "localStorage (downloadBlob blb filename b) = localStorage b"
  "live_croppers (downloadBlob blb filename b) = live_croppers b"
  by (simp_all add: downloadBlob_def createObjectURL_def revokeObjectURL_def Let_def)

lemma cleanup_fields:
  "objectUrl (cleanupObjectUrl st) = None"
  "resultUrl (cleanupObjectUrl st) = resultUrl st"
  "cropper (cleanupObjectUrl st) = cropper st"
  "resultUrl (cleanupResultUrl st) = None"
  "objectUrl (cleanupResultUrl st) = objectUrl st"
  "cropper (cleanupResultUrl st) = cropper st"
  "cropper (destroyCropper st) = None"
  "objectUrl (destroyCropper st) = objectUrl st"
  "resultUrl (destroyCropper st) = resultUrl st"
  by (simp_all add: cleanupObjectUrl_def cleanupResultUrl_def destroyCropper_def split: option.splits)

lemma cleanup_world:
  "object_urls (world (cleanupObjectUrl st))
     = (case objectUrl st of None \<Rightarrow> object_urls (world st) | Some u \<Rightarrow> object_urls (world st) - {u})"
  "object_urls (world (cleanupResultUrl st))
     = (case resultUrl st of None \<Rightarrow> object_urls (world st) | Some u \<Rightarrow> object_urls (world st) - {u})"
  "object_urls (world (destroyCropper st)) = object_urls (world st)"
  "live_croppers (world (cleanupObjectUrl st)) = live_croppers (world st)"
  "live_croppers (world (cleanupResultUrl st)) = live_croppers (world st)"
  "live_croppers (world (destroyCropper st))
     = (case cropper st of None \<Rightarrow> live_croppers (world st)
        | Some c \<Rightarrow> live_croppers (world st) - {cropper_id c})"
  "next_url (world (cleanupObjectUrl st)) = next_url (world st)"
  "next_url (world (cleanupResultUrl st)) = next_url (world st)"
  "next_url (world (destroyCropper st)) = next_url (world st)"
  "localStorage (world (cleanupObjectUrl st)) = localStorage (world st)"
  "localStorage (world (cleanupResultUrl st)) = localStorage (world st)"
  "localStorage (world (destroyCropper st)) = localStorage (world st)"
  by (simp_all add: cleanupObjectUrl_def cleanupResultUrl_def destroyCropper_def revokeObjectURL_def
      split: option.splits)

text \<open>
  Claim C8. \<open>downloadBlob\<close> revokes the object URL it created and triggers one download;
  in a browser state where identities not yet handed out are not in use, it leaves the
  children of the document body and the set of live object URLs as they were. After
  \<open>onDestroy\<close> the component holds no cropper, no object URL and no result URL, and the
  cropper instance and the two URLs it held are no longer live.
\<close>

theorem resource_cleanup:
  "(browser_wf b \<longrightarrow>
      body_children (downloadBlob blb filename b) = body_children b
      \<and> object_urls (downloadBlob blb filename b) = object_urls b)
   \<and> next_url b \<notin> object_urls (downloadBlob blb filename b)
   \<and> downloads (downloadBlob blb filename b) = downloads b @ [(next_url b, filename)]
   \<and> cropper (onDestroy st) = None
   \<and> objectUrl (onDestroy st) = None
   \<and> resultUrl (onDestroy st) = None
   \<and> (\<forall>c. cropper st = Some c \<longrightarrow> cropper_id c \<notin> live_croppers (world (onDestroy st)))
   \<and> (\<forall>u. objectUrl st = Some u \<longrightarrow> u \<notin> object_urls (world (onDestroy st)))
   \<and> (\<forall>u. resultUrl st = Some u \<longrightarrow> u \<notin> object_urls (world (onDestroy st)))"
proof -
  have a: "browser_wf b \<longrightarrow>
      body_children (downloadBlob blb filename b) = body_children b
      \<and> object_urls (downloadBlob blb filename b) = object_urls b"
  proof
    assume w: "browser_wf b"
    then have "next_node b \<notin> set (body_children b)" and "next_url b \<notin> object_urls b"
      by (auto simp: browser_wf_def)
    then show "body_children (downloadBlob blb filename b) = body_children b
      \<and> object_urls (downloadBlob blb filename b) = object_urls b"
      by (simp add: downloadBlob_fields remove1_appended)
  qed
  have b: "next_url b \<notin> object_urls (downloadBlob blb filename b)"
    by (simp add: downloadBlob_fields)
  have c: "\<forall>c. cropper st = Some c \<longrightarrow> cropper_id c \<notin> live_croppers (world (onDestroy st))"
    by (simp add: onDestroy_def cleanup_world)
  have d: "\<forall>u. objectUrl st = Some u \<longrightarrow> u \<notin> object_urls (world (onDestroy st))"
    by (auto simp: onDestroy_def cleanup_world cleanup_fields split: option.splits)
  have e: "\<forall>u. resultUrl st = Some u \<longrightarrow> u \<notin> object_urls (world (onDestroy st))"
    by (auto simp: onDestroy_def cleanup_world cleanup_fields split: option.splits)
  show ?thesis
    apply (intro conjI)
            apply (rule a)
           apply (rule b)
          apply (simp add: downloadBlob_fields)
         apply (simp add: onDestroy_def cleanup_fields)
        apply (simp add: onDestroy_def cleanup_fields)
       apply (simp add: onDestroy_def cleanup_fields)
      apply (rule c)
     apply (rule d)
    apply (rule e)
    done
qed

subsection \<open>Example states\<close>

lemmas cleanup_defs = resetState_def cleanupObjectUrl_def cleanupResultUrl_def destroyCropper_def
  createObjectURL_def revokeObjectURL_def

lemma loaded_photo_eq:
  "loaded_photo =
     initial_image_toolkit
       \<lparr> file' := Some example_photo, objectUrl := Some 0,
         statusMessage := ''Image loaded. Adjust settings as needed.'',
         originalWidth := 4000, originalHeight := 2000, aspectRatio := 2,
         targetWidth := Some 4000, targetHeight := Some 2000,
         world := initial_browser\<lparr> object_urls := {0}, next_url := 1 \<rparr> \<rparr>"
  by (simp add: loaded_photo_def handleFileSelection_def example_photo_def MAX_FILE_SIZE_BYTES_def
      initial_image_toolkit_def initial_browser_def cleanup_defs Let_def MAX_DIMENSION_def
      FORMAT_OPTIONS_def double_values)

lemma loaded_photo_resize_eq:
  "loaded_photo_resize =
     initial_image_toolkit
       \<lparr> file' := Some example_photo, objectUrl := Some 0,
         statusMessage := ''Image loaded. Adjust settings as needed.'',
         originalWidth := 4000, originalHeight := 2000, aspectRatio := 2,
         targetWidth := Some 4000, targetHeight := Some 2000,
         mode := Resize, previousMode := Resize,
         world := initial_browser\<lparr> object_urls := {0}, next_url := 1 \<rparr> \<rparr>"
  by (simp add: loaded_photo_resize_def handleFileSelection_def example_photo_def MAX_FILE_SIZE_BYTES_def
      initial_image_toolkit_def initial_browser_def cleanup_defs Let_def MAX_DIMENSION_def
      FORMAT_OPTIONS_def alignResizeDimensionsToAspect_def src_ratio_def truthy_def double_values)

lemma loaded_photo_cropper_eq:
  "loaded_photo_cropper =
     initial_image_toolkit
       \<lparr> file' := Some example_photo, objectUrl := Some 0,
         statusMessage := ''Image loaded. Adjust settings as needed.'',
         cropper := Some \<lparr> cropper_id = 0, cropper_aspectRatio = Some 2 \<rparr>,
         CropperCtor := True, imageRef := True,
         originalWidth := 4000, originalHeight := 2000, aspectRatio := 2,
         targetWidth := Some 4000, targetHeight := Some 2000,
         world := initial_browser\<lparr> object_urls := {0}, next_url := 1, live_croppers := {0},
                                  next_cropper := 1 \<rparr> \<rparr>"
  by (simp add: loaded_photo_cropper_def loaded_photo_eq initialiseCropper_def new_cropper_def
      initial_image_toolkit_def initial_browser_def destroyCropper_def or_one_def)

lemma loaded_photo_cropper_facts:
  "cropper loaded_photo_cropper = Some \<lparr> cropper_id = 0, cropper_aspectRatio = Some 2 \<rparr>"
  "objectUrl loaded_photo_cropper = Some 0"
  "object_urls (world loaded_photo_cropper) = {0}"
  "next_url (world loaded_photo_cropper) = 1"
  "body_children (world loaded_photo_cropper) = []"
  "next_node (world loaded_photo_cropper) = 0"
  "live_croppers (world loaded_photo_cropper) = {0}"
  "next_cropper (world loaded_photo_cropper) = 1"
  by (simp_all add: loaded_photo_cropper_eq initial_image_toolkit_def initial_browser_def)


theorem resource_cleanup_witness:
  "browser_wf (world loaded_photo_cropper)
   \<and> body_children (downloadBlob \<lparr> blob_size = 10, blob_type = ''image/png'' \<rparr> ''a.png'' (world loaded_photo_cropper)) = []
   \<and> object_urls (downloadBlob \<lparr> blob_size = 10, blob_type = ''image/png'' \<rparr> ''a.png'' (world loaded_photo_cropper)) = {0}
   \<and> cropper loaded_photo_cropper = Some \<lparr> cropper_id = 0, cropper_aspectRatio = Some 2 \<rparr>
   \<and> 0 \<notin> live_croppers (world (onDestroy loaded_photo_cropper))
   \<and> objectUrl loaded_photo_cropper = Some 0
   \<and> 0 \<notin> object_urls (world (onDestroy loaded_photo_cropper))"
proof -
  have w: "browser_wf (world loaded_photo_cropper)"
    by (simp add: browser_wf_def loaded_photo_cropper_facts)
  note t = resource_cleanup [where b = "world loaded_photo_cropper" and st = loaded_photo_cropper
      and blb = "\<lparr> blob_size = 10, blob_type = ''image/png'' \<rparr>" and filename = "''a.png''"]
  from t [THEN conjunct1, THEN mp, OF w]
  have a: "body_children (downloadBlob \<lparr> blob_size = 10, blob_type = ''image/png'' \<rparr> ''a.png'' (world loaded_photo_cropper)) = []"
    and b: "object_urls (downloadBlob \<lparr> blob_size = 10, blob_type = ''image/png'' \<rparr> ''a.png'' (world loaded_photo_cropper)) = {0}"
    by (simp_all add: loaded_photo_cropper_facts)
  note r = t [THEN conjunct2, THEN conjunct2, THEN conjunct2, THEN conjunct2, THEN conjunct2,
      THEN conjunct2]
  from r [THEN conjunct1, THEN spec, THEN mp, OF loaded_photo_cropper_facts(1)]
  have c: "0 \<notin> live_croppers (world (onDestroy loaded_photo_cropper))"
    by simp
  from r [THEN conjunct2, THEN conjunct1, THEN spec, THEN mp, OF loaded_photo_cropper_facts(2)]
  have d: "0 \<notin> object_urls (world (onDestroy loaded_photo_cropper))" .
  from w a b loaded_photo_cropper_facts(1) c loaded_photo_cropper_facts(2) d show ?thesis
    by (intro conjI)
qed

subsection \<open>Selecting a file\<close>

lemma formatBytes_limit: "formatBytes (of_nat MAX_FILE_SIZE_BYTES) 1 = ''50 MB''"
proof -
  have "formatBytes 52428800 1 = ''50 MB''"
    by code_simp
  then show ?thesis
    by (simp add: MAX_FILE_SIZE_BYTES_def)
qed

lemma resetState_fields:
  "file' (resetState st) = None" "objectUrl (resetState st) = None" "resultUrl (resetState st) = None"
  "cropper (resetState st) = None" "targetWidth (resetState st) = None"
  "targetHeight (resetState st) = None" "statusMessage (resetState st) = []"
  "errorMessage (resetState st) = []"
  "next_url (world (resetState st)) = next_url (world st)"
  "localStorage (world (resetState st)) = localStorage (world st)"
  by (simp_all add: resetState_def cleanup_fields cleanup_world)

lemma resetState_urls: "object_urls (world (resetState st)) \<subseteq> object_urls (world st)"
  by (auto simp: resetState_def cleanup_world split: option.splits)

text \<open>
  Claim C5. For a candidate file larger than \<open>MAX_FILE_SIZE_BYTES\<close>, \<open>handleFileSelection\<close>
  resets the component and sets an error message that gives the size of the file and the
  limit of 50 MB: no file is loaded, the component holds no object URL, result URL or
  cropper, the target dimensions and the status message are cleared, no object URL is
  created, and no object URL becomes live.
\<close>

theorem oversized_file_rejected:
  "MAX_FILE_SIZE_BYTES < file_size c \<longrightarrow>
     handleFileSelection (Some c) measured st
       = (resetState st)\<lparr> errorMessage := ''File is '' @ formatBytes (of_nat (file_size c)) 1
                                            @ ''. Please keep images under 50 MB.'' \<rparr>
   \<and> errorMessage (handleFileSelection (Some c) measured st)
       = ''File is '' @ formatBytes (of_nat (file_size c)) 1 @ ''. Please keep images under 50 MB.''
   \<and> file' (handleFileSelection (Some c) measured st) = None
   \<and> objectUrl (handleFileSelection (Some c) measured st) = None
   \<and> resultUrl (handleFileSelection (Some c) measured st) = None
   \<and> cropper (handleFileSelection (Some c) measured st) = None
   \<and> targetWidth (handleFileSelection (Some c) measured st) = None
   \<and> targetHeight (handleFileSelection (Some c) measured st) = None
   \<and> statusMessage (handleFileSelection (Some c) measured st) = []
   \<and> next_url (world (handleFileSelection (Some c) measured st)) = next_url (world st)
   \<and> object_urls (world (handleFileSelection (Some c) measured st)) \<subseteq> object_urls (world st)"
proof
  assume big: "MAX_FILE_SIZE_BYTES < file_size c"
  have e: "handleFileSelection (Some c) measured st
       = (resetState st)\<lparr> errorMessage := ''File is '' @ formatBytes (of_nat (file_size c)) 1
                                            @ ''. Please keep images under 50 MB.'' \<rparr>"
    using big by (simp add: handleFileSelection_def formatBytes_limit del: One_nat_def)
  show "handleFileSelection (Some c) measured st
       = (resetState st)\<lparr> errorMessage := ''File is '' @ formatBytes (of_nat (file_size c)) 1
                                            @ ''. Please keep images under 50 MB.'' \<rparr>
   \<and> errorMessage (handleFileSelection (Some c) measured st)
       = ''File is '' @ formatBytes (of_nat (file_size c)) 1 @ ''. Please keep images under 50 MB.''
   \<and> file' (handleFileSelection (Some c) measured st) = None
   \<and> objectUrl (handleFileSelection (Some c) measured st) = None
   \<and> resultUrl (handleFileSelection (Some c) measured st) = None
   \<and> cropper (handleFileSelection (Some c) measured st) = None
   \<and> targetWidth (handleFileSelection (Some c) measured st) = None
   \<and> targetHeight (handleFileSelection (Some c) measured st) = None
   \<and> statusMessage (handleFileSelection (Some c) measured st) = []
   \<and> next_url (world (handleFileSelection (Some c) measured st)) = next_url (world st)
   \<and> object_urls (world (handleFileSelection (Some c) measured st)) \<subseteq> object_urls (world st)"
    unfolding e
    by (simp add: resetState_fields resetState_urls)
qed

theorem oversized_file_rejected_witness:
  "MAX_FILE_SIZE_BYTES < file_size (example_photo\<lparr> file_size := 60000000 \<rparr>)
   \<and> errorMessage (handleFileSelection (Some (example_photo\<lparr> file_size := 60000000 \<rparr>))
        (Some (4000, 2000)) loaded_photo)
       = ''File is 57 MB. Please keep images under 50 MB.''
   \<and> file' loaded_photo = Some example_photo
   \<and> file' (handleFileSelection (Some (example_photo\<lparr> file_size := 60000000 \<rparr>))
        (Some (4000, 2000)) loaded_photo) = None
   \<and> next_url (world (handleFileSelection (Some (example_photo\<lparr> file_size := 60000000 \<rparr>))
        (Some (4000, 2000)) loaded_photo)) = 1"
proof -
  have big: "MAX_FILE_SIZE_BYTES < file_size (example_photo\<lparr> file_size := 60000000 \<rparr>)"
    by (simp add: MAX_FILE_SIZE_BYTES_def)
  have f: "formatBytes 60000000 1 = ''57 MB''"
    by code_simp
  have l: "file' loaded_photo = Some example_photo" "next_url (world loaded_photo) = 1"
    by (simp_all add: loaded_photo_eq initial_image_toolkit_def initial_browser_def)
  note t = oversized_file_rejected [where c = "example_photo\<lparr> file_size := 60000000 \<rparr>"
      and measured = "Some (4000, 2000)" and st = loaded_photo, THEN mp, OF big]
  from t [THEN conjunct2, THEN conjunct1]
  have a: "errorMessage (handleFileSelection (Some (example_photo\<lparr> file_size := 60000000 \<rparr>))
        (Some (4000, 2000)) loaded_photo)
       = ''File is 57 MB. Please keep images under 50 MB.''"
    by (simp add: f del: One_nat_def)
  from t [THEN conjunct2, THEN conjunct2, THEN conjunct1]
  have b: "file' (handleFileSelection (Some (example_photo\<lparr> file_size := 60000000 \<rparr>))
        (Some (4000, 2000)) loaded_photo) = None" .
  from t [THEN conjunct2, THEN conjunct2, THEN conjunct2, THEN conjunct2, THEN conjunct2,
      THEN conjunct2, THEN conjunct2, THEN conjunct2, THEN conjunct2, THEN conjunct1]
  have c: "next_url (world (handleFileSelection (Some (example_photo\<lparr> file_size := 60000000 \<rparr>))
        (Some (4000, 2000)) loaded_photo)) = 1"
    by (simp add: l)
  from big a l(1) b c show ?thesis
    by (intro conjI)
qed

subsection \<open>Resizing with the aspect ratio kept\<close>

lemma max_one_nonzero: "max 1 (k :: int) \<noteq> 0"
  by simp

lemma truthy_positive: "0 < k \<Longrightarrow> truthy (Some k) = Some k"
  by (simp add: truthy_def)

lemma truthy_max_one: "truthy (Some (max 1 k)) = Some (max 1 k)"
  by (simp add: truthy_def)

lemma truthy_cases: "truthy x = None \<or> (\<exists>k. k \<noteq> 0 \<and> truthy x = Some k \<and> x = Some k)"
  by (cases x) (auto simp: truthy_def)

lemma round_back_bounded:
  fixes r :: rat and h :: int
  assumes h: "0 < h" "h \<le> MAX_DIMENSION" and r: "0 < r"
    and big: "MAX_DIMENSION < max 1 (js_round (fmul (of_int h) r))"
  shows "max 1 (js_round (fdiv (of_int MAX_DIMENSION) r)) \<le> MAX_DIMENSION"
proof -
  have m: "(1 :: int) \<le> MAX_DIMENSION" by (simp add: MAX_DIMENSION_def)
  have fm: "fl (of_int MAX_DIMENSION) = of_int MAX_DIMENSION"
    by (simp add: MAX_DIMENSION_def double_values)
  have mp: "(0 :: rat) < of_int MAX_DIMENSION" by (simp add: MAX_DIMENSION_def)
  have hp: "(0 :: rat) < of_int h" using h by simp
  from big m have "MAX_DIMENSION < js_round (fmul (of_int h) r)" by simp
  then have "MAX_DIMENSION + 1 \<le> \<lfloor>fmul (of_int h) r + 1 / 2\<rfloor>"
    by (simp add: js_round_def)
  then have "of_int (MAX_DIMENSION + 1) \<le> fmul (of_int h) r + 1 / 2"
    by (simp add: le_floor_iff)
  then have a: "of_int MAX_DIMENSION < fl (of_int h * r)"
    by (simp add: fmul_def)
  have prod: "0 < of_int h * r" using hp r by simp
  have "of_int MAX_DIMENSION < of_int h * r"
  proof (rule ccontr)
    assume "\<not> of_int MAX_DIMENSION < of_int h * r"
    then have "of_int h * r \<le> of_int MAX_DIMENSION" by simp
    with prod have "fl (of_int h * r) \<le> fl (of_int MAX_DIMENSION)" by (rule fl_mono)
    with a fm show False by simp
  qed
  moreover have "of_int h \<le> (of_int MAX_DIMENSION :: rat)" using h by simp
  ultimately have "of_int h * 1 < of_int h * r" by simp
  with hp have r1: "1 < r" by (simp only: mult_less_cancel_left_pos)
  have q: "0 < of_int MAX_DIMENSION / r" using mp r by simp
  have "of_int MAX_DIMENSION / r \<le> of_int MAX_DIMENSION"
    using r1 r mp by (simp add: divide_le_eq)
  with q have "fl (of_int MAX_DIMENSION / r) \<le> fl (of_int MAX_DIMENSION)" by (rule fl_mono)
  then have "fdiv (of_int MAX_DIMENSION) r + 1 / 2 < of_int (MAX_DIMENSION + 1)"
    by (simp add: fdiv_def fm)
  then have "\<lfloor>fdiv (of_int MAX_DIMENSION) r + 1 / 2\<rfloor> < MAX_DIMENSION + 1"
    by (simp only: floor_less_iff)
  then have "js_round (fdiv (of_int MAX_DIMENSION) r) \<le> MAX_DIMENSION"
    by (simp add: js_round_def)
  with m show ?thesis by simp
qed

lemma src_ratio_positive: "0 < src_ratio st"
  by (simp add: src_ratio_def fdiv_def Let_def fl_positive)

lemma src_ratio_loaded:
  "0 < originalWidth st \<Longrightarrow> 0 < originalHeight st \<Longrightarrow>
     src_ratio st = fdiv (of_nat (originalWidth st)) (of_nat (originalHeight st))"
  by (simp add: src_ratio_def)

lemma alignResize_after_width:
  assumes md: "mode st = Resize" "keepAspectInResize st"
    and w: "targetWidth st = Some w" "0 < w" "w \<le> MAX_DIMENSION"
    and ch: "changed \<noteq> Some Height"
  shows "targetHeight (alignResizeDimensionsToAspect changed st)
           = Some (if MAX_DIMENSION < max 1 (js_round (fdiv (of_int w) (src_ratio st)))
                   then MAX_DIMENSION
                   else max 1 (js_round (fdiv (of_int w) (src_ratio st))))
       \<and> targetWidth (alignResizeDimensionsToAspect changed st)
           = Some (if MAX_DIMENSION < max 1 (js_round (fdiv (of_int w) (src_ratio st)))
                   then max 1 (js_round (fmul (of_int MAX_DIMENSION) (src_ratio st)))
                   else w)"
proof -
  define H0 where "H0 = max 1 (js_round (fdiv (of_int w) (src_ratio st)))"
  define W1 where "W1 = max 1 (js_round (fmul (of_int MAX_DIMENSION) (src_ratio st)))"
  have He: "max 1 (js_round (fdiv (of_int w) (src_ratio st))) = H0"
    by (simp add: H0_def)
  have We: "max 1 (js_round (fmul (of_int MAX_DIMENSION) (src_ratio st))) = W1"
    by (simp add: W1_def)
  have tH: "truthy (Some H0) = Some H0"
    unfolding H0_def by (rule truthy_max_one)
  have tw: "truthy (targetWidth st) = Some w"
    using w by (simp add: truthy_def)
  have tw': "truthy (Some w) = Some w"
    using w by (simp add: truthy_def)
  have small: "\<not> MAX_DIMENSION < w" using w by simp
  have goal: "targetHeight (alignResizeDimensionsToAspect changed st)
           = Some (if MAX_DIMENSION < H0 then MAX_DIMENSION else H0)
       \<and> targetWidth (alignResizeDimensionsToAspect changed st)
           = Some (if MAX_DIMENSION < H0 then W1 else w)"
    using truthy_cases [of "targetHeight st"]
  proof
    assume "truthy (targetHeight st) = None"
    then show ?thesis
      using md w tw ch small
      by (simp add: alignResizeDimensionsToAspect_def Let_def He We tH tw')
  next
    assume "\<exists>k. k \<noteq> 0 \<and> truthy (targetHeight st) = Some k \<and> targetHeight st = Some k"
    then obtain k where "truthy (targetHeight st) = Some k" by blast
    then show ?thesis
      using md w tw ch small
      by (simp add: alignResizeDimensionsToAspect_def Let_def He We tH tw')
  qed
  then show ?thesis
    unfolding He We .
qed

lemma alignResize_after_height:
  assumes md: "mode st = Resize" "keepAspectInResize st"
    and h: "targetHeight st = Some h" "0 < h" "h \<le> MAX_DIMENSION"
  shows "targetWidth (alignResizeDimensionsToAspect (Some Height) st)
           = Some (if MAX_DIMENSION < max 1 (js_round (fmul (of_int h) (src_ratio st)))
                   then MAX_DIMENSION
                   else max 1 (js_round (fmul (of_int h) (src_ratio st))))
       \<and> targetHeight (alignResizeDimensionsToAspect (Some Height) st)
           = Some (if MAX_DIMENSION < max 1 (js_round (fmul (of_int h) (src_ratio st)))
                   then max 1 (js_round (fdiv (of_int MAX_DIMENSION) (src_ratio st)))
                   else h)"
proof -
  define W0 where "W0 = max 1 (js_round (fmul (of_int h) (src_ratio st)))"
  define H1 where "H1 = max 1 (js_round (fdiv (of_int MAX_DIMENSION) (src_ratio st)))"
  have We: "max 1 (js_round (fmul (of_int h) (src_ratio st))) = W0"
    by (simp add: W0_def)
  have He: "max 1 (js_round (fdiv (of_int MAX_DIMENSION) (src_ratio st))) = H1"
    by (simp add: H1_def)
  have tW: "truthy (Some W0) = Some W0"
    unfolding W0_def by (rule truthy_max_one)
  have tH1: "truthy (Some H1) = Some H1"
    unfolding H1_def by (rule truthy_max_one)
  have th: "truthy (targetHeight st) = Some h"
    using h by (simp add: truthy_def)
  have th': "truthy (Some h) = Some h"
    using h by (simp add: truthy_def)
  have tM: "truthy (Some MAX_DIMENSION) = Some MAX_DIMENSION"
    by (simp add: truthy_def MAX_DIMENSION_def)
  have small: "\<not> MAX_DIMENSION < h" using h by simp
  have bk: "MAX_DIMENSION < W0 \<Longrightarrow> \<not> MAX_DIMENSION < H1"
    using round_back_bounded [OF h(2) h(3) src_ratio_positive, of st] by (simp add: W0_def H1_def not_less)
  have goal: "targetWidth (alignResizeDimensionsToAspect (Some Height) st)
           = Some (if MAX_DIMENSION < W0 then MAX_DIMENSION else W0)
       \<and> targetHeight (alignResizeDimensionsToAspect (Some Height) st)
           = Some (if MAX_DIMENSION < W0 then H1 else h)"
    using truthy_cases [of "targetWidth st"]
  proof
    assume "truthy (targetWidth st) = None"
    then show ?thesis
      using md h th small bk
      by (simp add: alignResizeDimensionsToAspect_def Let_def He We tW tH1 th' tM)
  next
    assume "\<exists>k. k \<noteq> 0 \<and> truthy (targetWidth st) = Some k \<and> targetWidth st = Some k"
    then obtain k where "truthy (targetWidth st) = Some k" by blast
    then show ?thesis
      using md h th small bk
      by (simp add: alignResizeDimensionsToAspect_def Let_def He We tW tH1 th' tM)
  qed
  then show ?thesis
    unfolding He We .
qed

lemma input_value_valid: "0 < js_round x \<Longrightarrow> input_value (Some x) = Some (min (js_round x) MAX_DIMENSION)"
  by (simp add: input_value_def)

lemma min_max_dimension: "0 < k \<Longrightarrow> 0 < min k MAX_DIMENSION \<and> min k MAX_DIMENSION \<le> MAX_DIMENSION"
  by (simp add: MAX_DIMENSION_def)

text \<open>
  Claim C3. In resize mode with the aspect ratio kept and an image loaded (its width and
  height positive and below \<open>2^32\<close>, as the DOM has them), editing the
  width field to a value \<open>x\<close> that rounds to a positive number sets the width to that
  number, capped at \<open>MAX_DIMENSION\<close>, and the height to the paired height
  \<open>max(1, round(w / (originalWidth / originalHeight)))\<close>; when the paired height exceeds
  \<open>MAX_DIMENSION\<close>, the height is \<open>MAX_DIMENSION\<close> and the width is the width paired with
  it. Editing the height field does the same with the roles exchanged. The quotients and
  products are those of doubles, as the code computes them: for a 480 by 340 image and the
  width 180 the ratio is the double nearest to 24/17, the quotient is a double just below
  127.5, and the height is 127 (the quotient of the exact numbers is 127.5, which would
  round to 128).
\<close>

theorem resize_aspect_lock:
  "mode st = Resize \<and> keepAspectInResize st \<and> 0 < originalWidth st \<and> 0 < originalHeight st
     \<and> originalWidth st < 2 ^ 32 \<and> originalHeight st < 2 ^ 32 \<and> 0 < js_round x
   \<longrightarrow>
     targetHeight (handleTargetWidthInput (Some x) st)
       = Some (if MAX_DIMENSION < paired_height st (min (js_round x) MAX_DIMENSION)
               then MAX_DIMENSION
               else paired_height st (min (js_round x) MAX_DIMENSION))
   \<and> targetWidth (handleTargetWidthInput (Some x) st)
       = Some (if MAX_DIMENSION < paired_height st (min (js_round x) MAX_DIMENSION)
               then paired_width st MAX_DIMENSION
               else min (js_round x) MAX_DIMENSION)
   \<and> targetWidth (handleTargetHeightInput (Some x) st)
       = Some (if MAX_DIMENSION < paired_width st (min (js_round x) MAX_DIMENSION)
               then MAX_DIMENSION
               else paired_width st (min (js_round x) MAX_DIMENSION))
   \<and> targetHeight (handleTargetHeightInput (Some x) st)
       = Some (if MAX_DIMENSION < paired_width st (min (js_round x) MAX_DIMENSION)
               then paired_height st MAX_DIMENSION
               else min (js_round x) MAX_DIMENSION)"
proof
  assume h: "mode st = Resize \<and> keepAspectInResize st \<and> 0 < originalWidth st \<and> 0 < originalHeight st
     \<and> originalWidth st < 2 ^ 32 \<and> originalHeight st < 2 ^ 32 \<and> 0 < js_round x"
  define v where "v = min (js_round x) MAX_DIMENSION"
  have v: "0 < v" "v \<le> MAX_DIMENSION"
    using h min_max_dimension [of "js_round x"] by (simp_all add: v_def)
  have iv: "input_value (Some x) = Some v"
    using h by (simp add: input_value_valid v_def)
  define sw where "sw = st\<lparr> targetWidth := Some v, selectedPresetValue := JStr CUSTOM_PRESET_VALUE,
                             lastChanged := Some Width \<rparr>"
  define sh where "sh = st\<lparr> targetHeight := Some v, selectedPresetValue := JStr CUSTOM_PRESET_VALUE,
                             lastChanged := Some Height \<rparr>"
  have hw: "handleTargetWidthInput (Some x) st = alignResizeDimensionsToAspect (Some Width) sw"
    using h by (simp add: handleTargetWidthInput_def iv sw_def Let_def)
  have hh: "handleTargetHeightInput (Some x) st = alignResizeDimensionsToAspect (Some Height) sh"
    using h by (simp add: handleTargetHeightInput_def iv sh_def Let_def)
  have rw: "src_ratio sw = fdiv (of_nat (originalWidth st)) (of_nat (originalHeight st))"
    using h by (simp add: src_ratio_def sw_def)
  have rh: "src_ratio sh = fdiv (of_nat (originalWidth st)) (of_nat (originalHeight st))"
    using h by (simp add: src_ratio_def sh_def)
  have a: "targetHeight (alignResizeDimensionsToAspect (Some Width) sw)
           = Some (if MAX_DIMENSION < max 1 (js_round (fdiv (of_int v) (src_ratio sw)))
                   then MAX_DIMENSION
                   else max 1 (js_round (fdiv (of_int v) (src_ratio sw))))
       \<and> targetWidth (alignResizeDimensionsToAspect (Some Width) sw)
           = Some (if MAX_DIMENSION < max 1 (js_round (fdiv (of_int v) (src_ratio sw)))
                   then max 1 (js_round (fmul (of_int MAX_DIMENSION) (src_ratio sw)))
                   else v)"
    using h v by (intro alignResize_after_width) (simp_all add: sw_def)
  have b: "targetWidth (alignResizeDimensionsToAspect (Some Height) sh)
           = Some (if MAX_DIMENSION < max 1 (js_round (fmul (of_int v) (src_ratio sh)))
                   then MAX_DIMENSION
                   else max 1 (js_round (fmul (of_int v) (src_ratio sh))))
       \<and> targetHeight (alignResizeDimensionsToAspect (Some Height) sh)
           = Some (if MAX_DIMENSION < max 1 (js_round (fmul (of_int v) (src_ratio sh)))
                   then max 1 (js_round (fdiv (of_int MAX_DIMENSION) (src_ratio sh)))
                   else v)"
    using h v by (intro alignResize_after_height) (simp_all add: sh_def)
  from a b show "targetHeight (handleTargetWidthInput (Some x) st)
       = Some (if MAX_DIMENSION < paired_height st (min (js_round x) MAX_DIMENSION)
               then MAX_DIMENSION
               else paired_height st (min (js_round x) MAX_DIMENSION))
   \<and> targetWidth (handleTargetWidthInput (Some x) st)
       = Some (if MAX_DIMENSION < paired_height st (min (js_round x) MAX_DIMENSION)
               then paired_width st MAX_DIMENSION
               else min (js_round x) MAX_DIMENSION)
   \<and> targetWidth (handleTargetHeightInput (Some x) st)
       = Some (if MAX_DIMENSION < paired_width st (min (js_round x) MAX_DIMENSION)
               then MAX_DIMENSION
               else paired_width st (min (js_round x) MAX_DIMENSION))
   \<and> targetHeight (handleTargetHeightInput (Some x) st)
       = Some (if MAX_DIMENSION < paired_width st (min (js_round x) MAX_DIMENSION)
               then paired_height st MAX_DIMENSION
               else min (js_round x) MAX_DIMENSION)"
    unfolding hw hh rw rh paired_height_def paired_width_def v_def [symmetric]
    by (intro conjI) (elim conjE, assumption)+
qed

lemma loaded_photo_resize_facts:
  "mode loaded_photo_resize = Resize" "keepAspectInResize loaded_photo_resize"
  "originalWidth loaded_photo_resize = 4000" "originalHeight loaded_photo_resize = 2000"
  by (simp_all add: loaded_photo_resize_eq initial_image_toolkit_def)

lemma loaded_photo_resize_paired:
  "paired_width loaded_photo_resize 8192 = 16384"
  "paired_height loaded_photo_resize 8192 = 4096"
  by (simp_all add: paired_height_def paired_width_def loaded_photo_resize_facts double_values)

lemma sketch_values:
  "js_round (fdiv 480 (fdiv 480 340)) = 340"
  "js_round (fdiv 180 (fdiv 480 340)) = 127"
  "js_round (180 / (480 / 340)) = 128"
  "fdiv 180 (fdiv 480 340) < 255 / 2" "255 / 2 - 1 / 2 ^ 40 < fdiv 180 (fdiv 480 340)"
  by code_simp+

lemma loaded_sketch_resize_eq:
  "loaded_sketch_resize =
     initial_image_toolkit
       \<lparr> file' := Some example_photo, objectUrl := Some 0,
         statusMessage := ''Image loaded. Adjust settings as needed.'',
         originalWidth := 480, originalHeight := 340, aspectRatio := fdiv 480 340,
         targetWidth := Some 480, targetHeight := Some 340,
         mode := Resize, previousMode := Resize,
         world := initial_browser\<lparr> object_urls := {0}, next_url := 1 \<rparr> \<rparr>"
  by (simp add: loaded_sketch_resize_def handleFileSelection_def example_photo_def MAX_FILE_SIZE_BYTES_def
      initial_image_toolkit_def initial_browser_def cleanup_defs Let_def MAX_DIMENSION_def
      FORMAT_OPTIONS_def alignResizeDimensionsToAspect_def src_ratio_def truthy_def sketch_values)

lemma loaded_sketch_resize_facts:
  "mode loaded_sketch_resize = Resize" "keepAspectInResize loaded_sketch_resize"
  "originalWidth loaded_sketch_resize = 480" "originalHeight loaded_sketch_resize = 340"
  by (simp_all add: loaded_sketch_resize_eq initial_image_toolkit_def)

theorem resize_aspect_lock_witness:
  "mode loaded_sketch_resize = Resize \<and> keepAspectInResize loaded_sketch_resize
   \<and> 0 < originalWidth loaded_sketch_resize \<and> 0 < originalHeight loaded_sketch_resize
   \<and> originalWidth loaded_sketch_resize < 2 ^ 32 \<and> originalHeight loaded_sketch_resize < 2 ^ 32
   \<and> 0 < js_round 180
   \<and> targetWidth (handleTargetWidthInput (Some 180) loaded_sketch_resize) = Some 180
   \<and> targetHeight (handleTargetWidthInput (Some 180) loaded_sketch_resize) = Some 127
   \<and> mode loaded_photo_resize = Resize \<and> keepAspectInResize loaded_photo_resize
   \<and> 0 < originalWidth loaded_photo_resize \<and> 0 < originalHeight loaded_photo_resize
   \<and> originalWidth loaded_photo_resize < 2 ^ 32 \<and> originalHeight loaded_photo_resize < 2 ^ 32
   \<and> 0 < js_round 8192
   \<and> targetWidth (handleTargetHeightInput (Some 8192) loaded_photo_resize) = Some 8192
   \<and> targetHeight (handleTargetHeightInput (Some 8192) loaded_photo_resize) = Some 4096"
proof -
  have h1: "mode loaded_sketch_resize = Resize \<and> keepAspectInResize loaded_sketch_resize
     \<and> 0 < originalWidth loaded_sketch_resize \<and> 0 < originalHeight loaded_sketch_resize
     \<and> originalWidth loaded_sketch_resize < 2 ^ 32 \<and> originalHeight loaded_sketch_resize < 2 ^ 32
     \<and> 0 < js_round 180"
    by (simp add: loaded_sketch_resize_facts)
  have h2: "mode loaded_photo_resize = Resize \<and> keepAspectInResize loaded_photo_resize
     \<and> 0 < originalWidth loaded_photo_resize \<and> 0 < originalHeight loaded_photo_resize
     \<and> originalWidth loaded_photo_resize < 2 ^ 32 \<and> originalHeight loaded_photo_resize < 2 ^ 32
     \<and> 0 < js_round 8192"
    by (simp add: loaded_photo_resize_facts)
  have p: "paired_height loaded_sketch_resize 180 = 127"
    by (simp add: paired_height_def loaded_sketch_resize_facts sketch_values)
  note t1 = resize_aspect_lock [where st = loaded_sketch_resize and x = 180, THEN mp, OF h1]
  note t2 = resize_aspect_lock [where st = loaded_photo_resize and x = 8192, THEN mp, OF h2]
  from t1 [THEN conjunct1]
  have a: "targetHeight (handleTargetWidthInput (Some 180) loaded_sketch_resize) = Some 127"
    by (simp add: p MAX_DIMENSION_def)
  from t1 [THEN conjunct2, THEN conjunct1]
  have b: "targetWidth (handleTargetWidthInput (Some 180) loaded_sketch_resize) = Some 180"
    by (simp add: p MAX_DIMENSION_def)
  from t2 [THEN conjunct2, THEN conjunct2, THEN conjunct1]
  have c: "targetWidth (handleTargetHeightInput (Some 8192) loaded_photo_resize) = Some 8192"
    by (simp add: loaded_photo_resize_paired MAX_DIMENSION_def)
  from t2 [THEN conjunct2, THEN conjunct2, THEN conjunct2]
  have d: "targetHeight (handleTargetHeightInput (Some 8192) loaded_photo_resize) = Some 4096"
    by (simp add: loaded_photo_resize_paired MAX_DIMENSION_def)
  from h1 b a h2 c d show ?thesis
    by (intro conjI) (elim conjE, assumption)+
qed

subsection \<open>Target dimensions and the maximum\<close>

lemma loaded_photo_width_cleared:
  "handleTargetWidthInput None loaded_photo
     = loaded_photo\<lparr> targetWidth := None, lastChanged := Some Width \<rparr>"
  by (simp add: handleTargetWidthInput_def input_value_def alignTargetDimensionsToAspect_def
      setAspectRatio_def truthy_def or_one_def loaded_photo_eq initial_image_toolkit_def Let_def)

lemma crop_height_edit:
  "handleTargetHeightInput (Some 20000) (loaded_photo\<lparr> targetWidth := None, lastChanged := Some Width \<rparr>)
     = loaded_photo\<lparr> targetWidth := Some 16384, targetHeight := Some 8192, lastChanged := Some Height \<rparr>"
  by (simp add: handleTargetHeightInput_def input_value_def alignTargetDimensionsToAspect_def
      setAspectRatio_def truthy_def or_one_def loaded_photo_eq initial_image_toolkit_def Let_def
      MAX_DIMENSION_def double_values)

text \<open>
  Claim C1 does not hold of the code. With a 4000 by 2000 image loaded in crop mode (the
  aspect lock on), clearing the width field and then entering 20000 in the height field
  leaves the height at 8192 and sets the width to 16384, above \<open>MAX_DIMENSION\<close>: the
  alignment in crop mode has no clamp, unlike the one in resize mode. Besides, resetting
  the sizing with no image loaded sets the target width to 0, and loading a 16384 by 1
  image sets the target height to 0.
\<close>

theorem crop_alignment_exceeds_maximum:
  "mode loaded_photo = Crop
   \<and> targetWidth loaded_photo = Some 4000 \<and> targetHeight loaded_photo = Some 2000
   \<and> targetWidth (handleTargetWidthInput None loaded_photo) = None
   \<and> targetHeight (handleTargetHeightInput (Some 20000) (handleTargetWidthInput None loaded_photo))
       = Some 8192
   \<and> targetWidth (handleTargetHeightInput (Some 20000) (handleTargetWidthInput None loaded_photo))
       = Some 16384
   \<and> MAX_DIMENSION < 16384
   \<and> targetWidth (resetSizing initial_image_toolkit) = Some 0
   \<and> targetHeight (handleFileSelection (Some example_photo) (Some (16384, 1)) initial_image_toolkit)
       = Some 0"
proof -
  have a: "mode loaded_photo = Crop" "targetWidth loaded_photo = Some 4000"
    "targetHeight loaded_photo = Some 2000"
    by (simp_all add: loaded_photo_eq initial_image_toolkit_def)
  have b: "targetWidth (resetSizing initial_image_toolkit) = Some 0"
    by (simp add: resetSizing_def initial_image_toolkit_def alignTargetDimensionsToAspect_def
        setAspectRatio_def truthy_def or_one_def Let_def)
  have c: "targetHeight (handleFileSelection (Some example_photo) (Some (16384, 1)) initial_image_toolkit)
       = Some 0"
    by (simp add: handleFileSelection_def example_photo_def MAX_FILE_SIZE_BYTES_def
        initial_image_toolkit_def initial_browser_def cleanup_defs Let_def MAX_DIMENSION_def
        FORMAT_OPTIONS_def fit_scale_def js_floor_def double_values)
  show ?thesis
    by (simp add: loaded_photo_width_cleared crop_height_edit a b c MAX_DIMENSION_def
        del: One_nat_def)
qed

subsection \<open>Settings in local storage\<close>

lemma persistSettings_storage:
  "localStorage (world (persistSettings st)) k
     = (if storage_available (world st) \<and> k = SETTINGS_KEY then Some (Json (settings_json st))
        else localStorage (world st) k)"
  by (simp add: persistSettings_def)

lemma persistSettings_frame:
  "persistSettings st
     = st\<lparr> world := (world st)\<lparr> localStorage := localStorage (world (persistSettings st)) \<rparr> \<rparr>"
  by (simp add: persistSettings_def)

lemma same_but_settings_refl: "same_but_settings st st"
  by (simp add: same_but_settings_def)

lemma same_but_settings_trans:
  "same_but_settings a b \<Longrightarrow> same_but_settings b c \<Longrightarrow> same_but_settings a c"
  by (simp add: same_but_settings_def)

lemma restore_steps_frame:
  "same_but_settings st (restore_format s st)" "same_but_settings st (restore_quality s st)"
  "same_but_settings st (restore_preset s st)" "same_but_settings st (restore_mode s st)"
  "same_but_settings st (restore_smoothing s st)" "same_but_settings st (restore_keep s st)"
  by (simp_all add: same_but_settings_def restore_format_def restore_quality_def restore_preset_def
      restore_mode_def restore_smoothing_def restore_keep_def split: option.splits json.splits)

lemma restore_fields_frame: "same_but_settings st (restore_fields s st)"
proof -
  have "same_but_settings st (restore_format s st)"
    by (rule restore_steps_frame)
  then have "same_but_settings st (restore_quality s (restore_format s st))"
    by (rule same_but_settings_trans) (rule restore_steps_frame)
  then have "same_but_settings st (restore_preset s (restore_quality s (restore_format s st)))"
    by (rule same_but_settings_trans) (rule restore_steps_frame)
  then have "same_but_settings st
      (restore_mode s (restore_preset s (restore_quality s (restore_format s st))))"
    by (rule same_but_settings_trans) (rule restore_steps_frame)
  then have "same_but_settings st
      (restore_smoothing s (restore_mode s (restore_preset s (restore_quality s (restore_format s st)))))"
    by (rule same_but_settings_trans) (rule restore_steps_frame)
  then have "same_but_settings st
      (restore_keep s (restore_smoothing s (restore_mode s (restore_preset s
         (restore_quality s (restore_format s st))))))"
    by (rule same_but_settings_trans) (rule restore_steps_frame)
  then show ?thesis
    by (simp only: restore_fields_def)
qed

lemma restoreSettings_frame: "same_but_settings st (restoreSettings st)"
  by (simp add: restoreSettings_def restore_fields_frame same_but_settings_refl
      split: option.splits stored.splits json.splits)

lemma restore_steps_quality:
  "quality (restore_format s st) = quality st" "quality (restore_preset s st) = quality st"
  "quality (restore_mode s st) = quality st" "quality (restore_smoothing s st) = quality st"
  "quality (restore_keep s st) = quality st"
  "quality (restore_quality s st) = (case s ''quality'' of Some (JNum q) \<Rightarrow> q | _ \<Rightarrow> quality st)"
  by (simp_all add: restore_format_def restore_quality_def restore_preset_def
      restore_mode_def restore_smoothing_def restore_keep_def split: option.splits json.splits)

lemma restore_steps_mode:
  "mode (restore_format s st) = mode st" "mode (restore_preset s st) = mode st"
  "mode (restore_quality s st) = mode st" "mode (restore_smoothing s st) = mode st"
  "mode (restore_keep s st) = mode st"
  "mode (restore_mode s st)
     = (case s ''mode'' of
          Some (JStr m) \<Rightarrow> if m = ''resize'' then Resize else if m = ''crop'' then Crop else mode st
        | _ \<Rightarrow> mode st)"
  by (simp_all add: restore_format_def restore_quality_def restore_preset_def
      restore_mode_def restore_smoothing_def restore_keep_def split: option.splits json.splits)

lemma restore_steps_keep:
  "keepAspectInResize (restore_format s st) = keepAspectInResize st"
  "keepAspectInResize (restore_preset s st) = keepAspectInResize st"
  "keepAspectInResize (restore_quality s st) = keepAspectInResize st"
  "keepAspectInResize (restore_smoothing s st) = keepAspectInResize st"
  "keepAspectInResize (restore_mode s st) = keepAspectInResize st"
  "keepAspectInResize (restore_keep s st)
     = (case s ''keepAspectInResize'' of Some (JBool b) \<Rightarrow> b | _ \<Rightarrow> keepAspectInResize st)"
  by (simp_all add: restore_format_def restore_quality_def restore_preset_def
      restore_mode_def restore_smoothing_def restore_keep_def split: option.splits json.splits)

lemma restoreSettings_cases:
  "restoreSettings st = st
   \<or> (\<exists>props. localStorage (world st) SETTINGS_KEY = Some (Json (JObj props))
         \<and> restoreSettings st = restore_fields (map_of props) st)"
  by (simp add: restoreSettings_def split: option.splits stored.splits json.splits)

lemma restoreSettings_quality:
  "quality (restoreSettings st) \<noteq> quality st \<longrightarrow>
     (\<exists>props. localStorage (world st) SETTINGS_KEY = Some (Json (JObj props))
        \<and> map_of props ''quality'' = Some (JNum (quality (restoreSettings st))))"
proof -
  from restoreSettings_cases [of st] show ?thesis
  proof
    assume "restoreSettings st = st"
    then show ?thesis by simp
  next
    assume "\<exists>props. localStorage (world st) SETTINGS_KEY = Some (Json (JObj props))
         \<and> restoreSettings st = restore_fields (map_of props) st"
    then obtain props where p: "localStorage (world st) SETTINGS_KEY = Some (Json (JObj props))"
      and r: "restoreSettings st = restore_fields (map_of props) st"
      by blast
    have "quality (restore_fields (map_of props) st) \<noteq> quality st \<longrightarrow>
        map_of props ''quality'' = Some (JNum (quality (restore_fields (map_of props) st)))"
      by (simp add: restore_fields_def restore_steps_quality split: option.splits json.splits)
    with p r show ?thesis by auto
  qed
qed

lemma restoreSettings_mode:
  "mode (restoreSettings st) \<noteq> mode st \<longrightarrow>
     (\<exists>props. localStorage (world st) SETTINGS_KEY = Some (Json (JObj props))
        \<and> map_of props ''mode'' = Some (JStr (mode_string (mode (restoreSettings st)))))"
proof -
  from restoreSettings_cases [of st] show ?thesis
  proof
    assume "restoreSettings st = st"
    then show ?thesis by simp
  next
    assume "\<exists>props. localStorage (world st) SETTINGS_KEY = Some (Json (JObj props))
         \<and> restoreSettings st = restore_fields (map_of props) st"
    then obtain props where p: "localStorage (world st) SETTINGS_KEY = Some (Json (JObj props))"
      and r: "restoreSettings st = restore_fields (map_of props) st"
      by blast
    have "mode (restore_fields (map_of props) st) \<noteq> mode st \<longrightarrow>
        map_of props ''mode'' = Some (JStr (mode_string (mode (restore_fields (map_of props) st))))"
      by (simp add: restore_fields_def restore_steps_mode mode_string_def split: option.splits json.splits)
    with p r show ?thesis by auto
  qed
qed

lemma restoreSettings_keep:
  "keepAspectInResize (restoreSettings st) \<noteq> keepAspectInResize st \<longrightarrow>
     (\<exists>props. localStorage (world st) SETTINGS_KEY = Some (Json (JObj props))
        \<and> map_of props ''keepAspectInResize'' = Some (JBool (keepAspectInResize (restoreSettings st))))"
proof -
  from restoreSettings_cases [of st] show ?thesis
  proof
    assume "restoreSettings st = st"
    then show ?thesis by simp
  next
    assume "\<exists>props. localStorage (world st) SETTINGS_KEY = Some (Json (JObj props))
         \<and> restoreSettings st = restore_fields (map_of props) st"
    then obtain props where p: "localStorage (world st) SETTINGS_KEY = Some (Json (JObj props))"
      and r: "restoreSettings st = restore_fields (map_of props) st"
      by blast
    have "keepAspectInResize (restore_fields (map_of props) st) \<noteq> keepAspectInResize st \<longrightarrow>
        map_of props ''keepAspectInResize''
          = Some (JBool (keepAspectInResize (restore_fields (map_of props) st)))"
      by (simp add: restore_fields_def restore_steps_keep split: option.splits json.splits)
    with p r show ?thesis by auto
  qed
qed


lemma settings_lookup:
  "map_of [ (''selectedFormatValue'', a), (''quality'', b), (''selectedPresetValue'', c),
            (''mode'', d), (''smoothing'', e), (''keepAspectInResize'', f) ]
     = (\<lambda>k. if k = ''selectedFormatValue'' then Some a else if k = ''quality'' then Some b
             else if k = ''selectedPresetValue'' then Some c else if k = ''mode'' then Some d
             else if k = ''smoothing'' then Some e else if k = ''keepAspectInResize'' then Some f
             else None)"
  by (rule ext) simp

lemma restore_after_persist:
  assumes "storage_available (world st)" "json_truthy (selectedFormatValue st)"
    "json_truthy (selectedPresetValue st)" "json_truthy (smoothing st)"
  shows "restoreSettings (st0\<lparr> world := world (persistSettings st) \<rparr>)
           = st0\<lparr> selectedFormatValue := selectedFormatValue st, quality := quality st,
                  keepAspectInResize := keepAspectInResize st, smoothing := smoothing st,
                  mode := mode st, selectedPresetValue := selectedPresetValue st,
                  world := world (persistSettings st) \<rparr>"
  using assms
  by (cases "mode st")
     (simp_all add: restoreSettings_def persistSettings_def settings_json_def settings_lookup
        restore_fields_def restore_format_def restore_quality_def restore_preset_def
        restore_mode_def restore_smoothing_def restore_keep_def mode_string_def)

lemma initial_settings_json:
  "settings_json (initial_image_toolkit\<lparr> world := b \<rparr>)
     = JObj [ (''selectedFormatValue'', JStr ''image/png''), (''quality'', JNum (fl (85 / 100))),
              (''selectedPresetValue'', JStr ''custom''), (''mode'', JStr ''crop''),
              (''smoothing'', JStr ''high''), (''keepAspectInResize'', JBool True) ]"
  by (simp add: settings_json_def initial_image_toolkit_def mode_string_def CUSTOM_PRESET_VALUE_def)

lemma component_init_eq:
  "component_init b = persistSettings (initial_image_toolkit\<lparr> world := b \<rparr>)"
  by (simp add: component_init_def reactive_blocks_def mode_reaction_def persistSettings_def
      initial_image_toolkit_def)

lemma initial_truthy:
  "json_truthy (selectedFormatValue (initial_image_toolkit\<lparr> world := b \<rparr>))"
  "json_truthy (selectedPresetValue (initial_image_toolkit\<lparr> world := b \<rparr>))"
  "json_truthy (smoothing (initial_image_toolkit\<lparr> world := b \<rparr>))"
  by (simp_all add: initial_image_toolkit_def json_truthy_def CUSTOM_PRESET_VALUE_def)

text \<open>
  Whatever the storage holds, a component mounted in a browser whose storage works ends
  with the initial values of its variables, and the key holds the initial settings: the
  reactive block has replaced what was stored before the restore reads it.
\<close>

lemma mount_eq:
  assumes "storage_available b"
  shows "mount b
     = initial_image_toolkit
         \<lparr> CropperCtor := True,
           world := b\<lparr> localStorage := (localStorage b)
                     (SETTINGS_KEY \<mapsto> Json (settings_json (initial_image_toolkit\<lparr> world := b \<rparr>))) \<rparr> \<rparr>"
proof -
  define st where "st = initial_image_toolkit\<lparr> world := b \<rparr>"
  have av: "storage_available (world st)"
    using assms by (simp add: st_def)
  have p: "persistSettings st
      = st\<lparr> world := b\<lparr> localStorage := (localStorage b)(SETTINGS_KEY \<mapsto> Json (settings_json st)) \<rparr> \<rparr>"
    using assms by (simp add: persistSettings_def st_def)
  have r: "restoreSettings ((st\<lparr> CropperCtor := True \<rparr>)\<lparr> world := world (persistSettings st) \<rparr>)
      = (st\<lparr> CropperCtor := True \<rparr>)
          \<lparr> selectedFormatValue := selectedFormatValue st, quality := quality st,
            keepAspectInResize := keepAspectInResize st, smoothing := smoothing st,
            mode := mode st, selectedPresetValue := selectedPresetValue st,
            world := world (persistSettings st) \<rparr>"
    using av initial_truthy [of b] unfolding st_def [symmetric] by (rule restore_after_persist)
  have c: "(persistSettings st)\<lparr> CropperCtor := True \<rparr>
      = (st\<lparr> CropperCtor := True \<rparr>)\<lparr> world := world (persistSettings st) \<rparr>"
    by (simp add: p)
  have same: "(st\<lparr> CropperCtor := True \<rparr>)
          \<lparr> selectedFormatValue := selectedFormatValue st, quality := quality st,
            keepAspectInResize := keepAspectInResize st, smoothing := smoothing st,
            mode := mode st, selectedPresetValue := selectedPresetValue st,
            world := world (persistSettings st) \<rparr>
      = st\<lparr> CropperCtor := True, world := world (persistSettings st) \<rparr>"
    by (simp add: st_def initial_image_toolkit_def)
  have after: "restoreSettings ((persistSettings st)\<lparr> CropperCtor := True \<rparr>)
      = st\<lparr> CropperCtor := True, world := world (persistSettings st) \<rparr>"
    by (simp only: c r same)
  have again: "reactive_blocks (st\<lparr> CropperCtor := True, world := world (persistSettings st) \<rparr>)
      = st\<lparr> CropperCtor := True, world := world (persistSettings st) \<rparr>"
    using assms
    by (simp add: reactive_blocks_def mode_reaction_def persistSettings_def settings_json_def
        st_def initial_image_toolkit_def)
  have "mount b = st\<lparr> CropperCtor := True, world := world (persistSettings st) \<rparr>"
    by (simp only: mount_def onMount_def component_init_eq st_def [symmetric] after again)
  also have "\<dots> = initial_image_toolkit
         \<lparr> CropperCtor := True,
           world := b\<lparr> localStorage := (localStorage b)
                     (SETTINGS_KEY \<mapsto> Json (settings_json (initial_image_toolkit\<lparr> world := b \<rparr>))) \<rparr> \<rparr>"
    using assms by (simp add: st_def persistSettings_def)
  finally show ?thesis .
qed

lemma returning_browser_facts:
  "storage_available returning_browser"
  "localStorage returning_browser SETTINGS_KEY
     = Some (Json (JObj [ (''selectedFormatValue'', JStr ''image/webp''), (''quality'', JNum (1 / 2)),
                          (''selectedPresetValue'', JStr ''custom''), (''mode'', JStr ''resize''),
                          (''smoothing'', JStr ''low''), (''keepAspectInResize'', JBool False) ]))"
  by (simp_all add: returning_browser_def earlier_visit_def persistSettings_def settings_json_def
      initial_image_toolkit_def initial_browser_def mode_string_def CUSTOM_PRESET_VALUE_def)

lemma restore_first:
  "restoreSettings (initial_image_toolkit\<lparr> world := returning_browser \<rparr>)
     = initial_image_toolkit
         \<lparr> selectedFormatValue := JStr ''image/webp'', quality := 1 / 2, mode := Resize,
           smoothing := JStr ''low'', keepAspectInResize := False, world := returning_browser \<rparr>"
  by (simp add: restoreSettings_def returning_browser_facts settings_lookup restore_fields_def
      restore_format_def restore_quality_def restore_preset_def restore_mode_def
      restore_smoothing_def restore_keep_def json_truthy_def initial_image_toolkit_def
      CUSTOM_PRESET_VALUE_def)

text \<open>
  Claim C7 does not hold of the code. The settings written under the key are the six the
  claim names and nothing else (\<open>persistSettings_storage\<close>, \<open>persistSettings_frame\<close>), and a
  restore that reads them hands them back (\<open>restore_after_persist\<close>); but they are not
  restored on mount. For a visitor who comes back with WEBP, quality 0.5, resize mode, low
  smoothing and the aspect lock off in the storage, the mounted component has the initial
  settings (PNG, 0.85, crop mode, high smoothing, the lock on), and the key holds the
  initial settings too: the reactive block runs when the component is initialised, with
  the initial values, before \<open>onMount\<close> reads the key. Read before that block has run, the
  same storage would have set the stored values.
\<close>

theorem mount_discards_stored_settings:
  "storage_available returning_browser
   \<and> localStorage returning_browser SETTINGS_KEY
       = Some (Json (JObj [ (''selectedFormatValue'', JStr ''image/webp''), (''quality'', JNum (1 / 2)),
                            (''selectedPresetValue'', JStr ''custom''), (''mode'', JStr ''resize''),
                            (''smoothing'', JStr ''low''), (''keepAspectInResize'', JBool False) ]))
   \<and> selectedFormatValue (mount returning_browser) = JStr ''image/png''
   \<and> quality (mount returning_browser) = fl (85 / 100)
   \<and> mode (mount returning_browser) = Crop
   \<and> smoothing (mount returning_browser) = JStr ''high''
   \<and> keepAspectInResize (mount returning_browser) = True
   \<and> localStorage (world (mount returning_browser)) SETTINGS_KEY
       = Some (Json (JObj [ (''selectedFormatValue'', JStr ''image/png''), (''quality'', JNum (fl (85 / 100))),
                            (''selectedPresetValue'', JStr ''custom''), (''mode'', JStr ''crop''),
                            (''smoothing'', JStr ''high''), (''keepAspectInResize'', JBool True) ]))
   \<and> selectedFormatValue (restoreSettings (initial_image_toolkit\<lparr> world := returning_browser \<rparr>))
       = JStr ''image/webp''
   \<and> quality (restoreSettings (initial_image_toolkit\<lparr> world := returning_browser \<rparr>)) = 1 / 2
   \<and> mode (restoreSettings (initial_image_toolkit\<lparr> world := returning_browser \<rparr>)) = Resize
   \<and> smoothing (restoreSettings (initial_image_toolkit\<lparr> world := returning_browser \<rparr>))
       = JStr ''low''
   \<and> keepAspectInResize (restoreSettings (initial_image_toolkit\<lparr> world := returning_browser \<rparr>))
       = False"
proof -
  note m = mount_eq [OF returning_browser_facts(1)]
  have a: "selectedFormatValue (mount returning_browser) = JStr ''image/png''"
    "quality (mount returning_browser) = fl (85 / 100)"
    "mode (mount returning_browser) = Crop"
    "smoothing (mount returning_browser) = JStr ''high''"
    "keepAspectInResize (mount returning_browser) = True"
    unfolding m by (simp_all add: initial_image_toolkit_def)
  have b: "localStorage (world (mount returning_browser)) SETTINGS_KEY
       = Some (Json (JObj [ (''selectedFormatValue'', JStr ''image/png''), (''quality'', JNum (fl (85 / 100))),
                            (''selectedPresetValue'', JStr ''custom''), (''mode'', JStr ''crop''),
                            (''smoothing'', JStr ''high''), (''keepAspectInResize'', JBool True) ]))"
    unfolding m by (simp add: initial_settings_json)
  have c: "selectedFormatValue (restoreSettings (initial_image_toolkit\<lparr> world := returning_browser \<rparr>))
       = JStr ''image/webp''"
    "quality (restoreSettings (initial_image_toolkit\<lparr> world := returning_browser \<rparr>)) = 1 / 2"
    "mode (restoreSettings (initial_image_toolkit\<lparr> world := returning_browser \<rparr>)) = Resize"
    "smoothing (restoreSettings (initial_image_toolkit\<lparr> world := returning_browser \<rparr>))
       = JStr ''low''"
    "keepAspectInResize (restoreSettings (initial_image_toolkit\<lparr> world := returning_browser \<rparr>))
       = False"
    unfolding restore_first by simp_all
  from returning_browser_facts a b c show ?thesis
    by (intro conjI)
qed

subsection \<open>An encoder that yields no blob\<close>

lemma encode_message_includes:
  "includes' ''Browser could not encode the requested format.'' ''encode''"
  by code_simp

lemma format_frame_basic:
  "selectedFormatValue (cleanupResultUrl st) = selectedFormatValue st"
  "quality (cleanupResultUrl st) = quality st"
  "selectedFormatValue (destroyCropper st) = selectedFormatValue st"
  "quality (destroyCropper st) = quality st"
  "selectedFormatValue (setAspectRatio r st) = selectedFormatValue st"
  "quality (setAspectRatio r st) = quality st"
  "selectedFormatValue (new_cropper r st) = selectedFormatValue st"
  "quality (new_cropper r st) = quality st"
  by (simp_all add: cleanupResultUrl_def destroyCropper_def setAspectRatio_def new_cropper_def
      split: option.splits)

lemma format_frame_alignResize:
  "selectedFormatValue (alignResizeDimensionsToAspect changed st) = selectedFormatValue st"
  "quality (alignResizeDimensionsToAspect changed st) = quality st"
  by (simp_all add: alignResizeDimensionsToAspect_def Let_def split: option.splits)

lemma format_frame_prepare:
  "selectedFormatValue (generate_prepare downloadNow st) = selectedFormatValue st"
  "quality (generate_prepare downloadNow st) = quality st"
  by (simp_all add: generate_prepare_def Let_def format_frame_basic format_frame_alignResize)

lemma format_frame_load:
  "selectedFormatValue (snd (loadOrientedImageElement e st)) = selectedFormatValue st"
  "quality (snd (loadOrientedImageElement e st)) = quality st"
  by (simp_all add: loadOrientedImageElement_def Let_def split: option.splits)

lemma format_frame_original:
  "selectedFormatValue (snd (canvasFromOriginal e w h st)) = selectedFormatValue st"
  "quality (snd (canvasFromOriginal e w h st)) = quality st"
proof -
  obtain r s where l: "loadOrientedImageElement e st = (r, s)"
    by (cases "loadOrientedImageElement e st")
  then have "selectedFormatValue s = selectedFormatValue st" "quality s = quality st"
    using format_frame_load [of e st] by simp_all
  then show "selectedFormatValue (snd (canvasFromOriginal e w h st)) = selectedFormatValue st"
    "quality (snd (canvasFromOriginal e w h st)) = quality st"
    by (simp_all add: canvasFromOriginal_def l split: option.splits sum.splits)
qed

lemma format_frame_full:
  "selectedFormatValue (snd (canvasViaCropperFullFrame e w h st)) = selectedFormatValue st"
  "quality (snd (canvasViaCropperFullFrame e w h st)) = quality st"
  by (simp_all add: canvasViaCropperFullFrame_def Let_def format_frame_original format_frame_basic)

lemma format_frame_make:
  "selectedFormatValue (snd (make_canvas e w h st)) = selectedFormatValue st
   \<and> quality (snd (make_canvas e w h st)) = quality st"
proof -
  obtain r1 s1 where a: "canvasViaCropperFullFrame e w h st = (r1, s1)"
    by (cases "canvasViaCropperFullFrame e w h st")
  obtain r2 s2 where b: "canvasViaCropperFullFrame e (min (int (originalWidth st)) MAX_DIMENSION)
                   (min (int (originalHeight st)) MAX_DIMENSION) st = (r2, s2)"
    by (cases "canvasViaCropperFullFrame e (min (int (originalWidth st)) MAX_DIMENSION)
                   (min (int (originalHeight st)) MAX_DIMENSION) st")
  have fa: "selectedFormatValue s1 = selectedFormatValue st" "quality s1 = quality st"
    using format_frame_full [of e w h st] a by simp_all
  have fb: "selectedFormatValue s2 = selectedFormatValue st" "quality s2 = quality st"
    using format_frame_full [of e "min (int (originalWidth st)) MAX_DIMENSION"
        "min (int (originalHeight st)) MAX_DIMENSION" st] b by simp_all
  show ?thesis
  proof (cases "mode st = Crop")
    case True
    then show ?thesis
      by (simp add: make_canvas_def Let_def format_frame_basic
          split: option.splits prod.splits sum.splits bool.splits)
  next
    case False
    then show ?thesis
      by (cases "keepAspectInResize st")
         (simp_all add: make_canvas_def a b fa fb split: sum.splits)
  qed
qed

text \<open>
  Claim C6. With a file loaded, when the canvas for the result has been produced and
  \<open>canvas.toBlob\<close> yields no blob for the selected format, \<open>canvasToBlob\<close> rejects with
  \<open>Browser could not encode the requested format.\<close>, and \<open>generateResult\<close> ends with that
  message as the error message, or with the AVIF hint when the selected format is
  \<open>image/avif\<close>, with an empty status message and \<open>processing\<close> false.
\<close>

theorem unsupported_encode_target:
  "file' st \<noteq> None
   \<and> fst (make_canvas e (output_width (generate_prepare downloadNow st))
             (output_height (generate_prepare downloadNow st)) (generate_prepare downloadNow st))
       = Inr cv
   \<and> env_toBlob e cv (fmt_value (selectedFormat st)) (quality_option st) = None
   \<longrightarrow>
     canvasToBlob e cv (fmt_value (selectedFormat st)) (quality_option st)
       = Inl ''Browser could not encode the requested format.''
   \<and> errorMessage (generateResult downloadNow e st)
       = (if fmt_value (selectedFormat st) = ''image/avif''
          then ''This browser cannot export AVIF yet. Try Chrome 120+ or pick WEBP/JPEG.''
          else ''Browser could not encode the requested format.'')
   \<and> statusMessage (generateResult downloadNow e st) = []
   \<and> processing (generateResult downloadNow e st) = False"
proof
  assume h: "file' st \<noteq> None
   \<and> fst (make_canvas e (output_width (generate_prepare downloadNow st))
             (output_height (generate_prepare downloadNow st)) (generate_prepare downloadNow st))
       = Inr cv
   \<and> env_toBlob e cv (fmt_value (selectedFormat st)) (quality_option st) = None"
  define s3 where "s3 = generate_prepare downloadNow st"
  define s4 where "s4 = snd (make_canvas e (output_width s3) (output_height s3) s3)"
  from h obtain f where f: "file' st = Some f" by blast
  from h have mk: "make_canvas e (output_width s3) (output_height s3) s3 = (Inr cv, s4)"
    by (simp add: s3_def s4_def prod_eq_iff)
  have "selectedFormatValue s4 = selectedFormatValue s3" "quality s4 = quality s3"
    using format_frame_make [of e "output_width s3" "output_height s3" s3] by (simp_all add: s4_def)
  then have same: "selectedFormatValue s4 = selectedFormatValue st" "quality s4 = quality st"
    by (simp_all add: s3_def format_frame_prepare)
  then have sf: "selectedFormat s4 = selectedFormat st" "quality_option s4 = quality_option st"
    by (simp_all add: selectedFormat_def quality_option_def)
  from h have blob: "canvasToBlob e cv (fmt_value (selectedFormat st)) (quality_option st)
       = Inl ''Browser could not encode the requested format.''"
    by (simp add: canvasToBlob_def)
  have g: "generateResult downloadNow e st
             = caught ''Browser could not encode the requested format.'' s4"
    using f mk blob
    by (simp add: generateResult_def Let_def s3_def [symmetric] sf)
  show "canvasToBlob e cv (fmt_value (selectedFormat st)) (quality_option st)
       = Inl ''Browser could not encode the requested format.''
   \<and> errorMessage (generateResult downloadNow e st)
       = (if fmt_value (selectedFormat st) = ''image/avif''
          then ''This browser cannot export AVIF yet. Try Chrome 120+ or pick WEBP/JPEG.''
          else ''Browser could not encode the requested format.'')
   \<and> statusMessage (generateResult downloadNow e st) = []
   \<and> processing (generateResult downloadNow e st) = False"
    unfolding g
    using blob encode_message_includes
    by (simp add: caught_def sf)
qed

lemma selectedFormat_examples:
  "fmt_value (selectedFormat loaded_photo_avif) = ''image/avif''"
  "fmt_value (selectedFormat loaded_photo_resize) = ''image/png''"
  by (simp_all add: selectedFormat_def loaded_photo_avif_def loaded_photo_resize_eq
      initial_image_toolkit_def FORMAT_OPTIONS_def)

lemma example_prepare:
  "generate_prepare False (loaded_photo_resize\<lparr> selectedFormatValue := v \<rparr>)
     = loaded_photo_resize\<lparr> selectedFormatValue := v, errorMessage := [],
         statusMessage := ''Processing'' @ ellipsis, processing := True \<rparr>"
  by (simp add: generate_prepare_def loaded_photo_resize_eq initial_image_toolkit_def Let_def
      alignResizeDimensionsToAspect_def src_ratio_def truthy_def MAX_DIMENSION_def double_values)

lemma example_make_canvas:
  "fst (make_canvas no_encoder_env 4000 2000
          (loaded_photo_resize\<lparr> selectedFormatValue := v, errorMessage := [],
              statusMessage := ''Processing'' @ ellipsis, processing := True \<rparr>))
     = Inr \<lparr> canvas_width = 4000, canvas_height = 2000 \<rparr>"
  by (simp add: make_canvas_def canvasViaCropperFullFrame_def canvasFromOriginal_def
      loadOrientedImageElement_def no_encoder_env_def loaded_photo_resize_eq
      initial_image_toolkit_def Let_def)

lemma example_output_size:
  "output_width (loaded_photo_resize\<lparr> selectedFormatValue := v, errorMessage := [],
              statusMessage := ''Processing'' @ ellipsis, processing := True \<rparr>) = 4000"
  "output_height (loaded_photo_resize\<lparr> selectedFormatValue := v, errorMessage := [],
              statusMessage := ''Processing'' @ ellipsis, processing := True \<rparr>) = 2000"
  by (simp_all add: output_width_def output_height_def loaded_photo_resize_eq initial_image_toolkit_def)

theorem unsupported_encode_target_witness:
  "file' loaded_photo_avif \<noteq> None
   \<and> fst (make_canvas no_encoder_env (output_width (generate_prepare False loaded_photo_avif))
             (output_height (generate_prepare False loaded_photo_avif))
             (generate_prepare False loaded_photo_avif))
       = Inr \<lparr> canvas_width = 4000, canvas_height = 2000 \<rparr>
   \<and> env_toBlob no_encoder_env \<lparr> canvas_width = 4000, canvas_height = 2000 \<rparr>
         (fmt_value (selectedFormat loaded_photo_avif)) (quality_option loaded_photo_avif) = None
   \<and> errorMessage (generateResult False no_encoder_env loaded_photo_avif)
       = ''This browser cannot export AVIF yet. Try Chrome 120+ or pick WEBP/JPEG.''
   \<and> statusMessage (generateResult False no_encoder_env loaded_photo_avif) = []
   \<and> processing (generateResult False no_encoder_env loaded_photo_avif) = False
   \<and> errorMessage (generateResult False no_encoder_env loaded_photo_resize)
       = ''Browser could not encode the requested format.''"
proof -
  have f: "file' loaded_photo_avif \<noteq> None" "file' loaded_photo_resize \<noteq> None"
    by (simp_all add: loaded_photo_avif_def loaded_photo_resize_eq initial_image_toolkit_def)
  have m: "fst (make_canvas no_encoder_env (output_width (generate_prepare False loaded_photo_avif))
             (output_height (generate_prepare False loaded_photo_avif))
             (generate_prepare False loaded_photo_avif))
       = Inr \<lparr> canvas_width = 4000, canvas_height = 2000 \<rparr>"
    by (simp only: loaded_photo_avif_def example_prepare example_output_size example_make_canvas)
  have p: "loaded_photo_resize = loaded_photo_resize\<lparr> selectedFormatValue := JStr ''image/png'' \<rparr>"
    by (simp add: loaded_photo_resize_eq initial_image_toolkit_def)
  have m': "fst (make_canvas no_encoder_env (output_width (generate_prepare False loaded_photo_resize))
             (output_height (generate_prepare False loaded_photo_resize))
             (generate_prepare False loaded_photo_resize))
       = Inr \<lparr> canvas_width = 4000, canvas_height = 2000 \<rparr>"
    by (subst (1 2 3) p) (simp only: example_prepare example_output_size example_make_canvas)
  have b: "env_toBlob no_encoder_env \<lparr> canvas_width = 4000, canvas_height = 2000 \<rparr>
         (fmt_value (selectedFormat loaded_photo_avif)) (quality_option loaded_photo_avif) = None"
    "env_toBlob no_encoder_env \<lparr> canvas_width = 4000, canvas_height = 2000 \<rparr>
         (fmt_value (selectedFormat loaded_photo_resize)) (quality_option loaded_photo_resize) = None"
    by (simp_all add: no_encoder_env_def)
  note t1 = unsupported_encode_target [where st = loaded_photo_avif and e = no_encoder_env
      and downloadNow = False and cv = "\<lparr> canvas_width = 4000, canvas_height = 2000 \<rparr>",
      THEN mp, OF conjI [OF f(1) conjI [OF m b(1)]]]
  note t2 = unsupported_encode_target [where st = loaded_photo_resize and e = no_encoder_env
      and downloadNow = False and cv = "\<lparr> canvas_width = 4000, canvas_height = 2000 \<rparr>",
      THEN mp, OF conjI [OF f(2) conjI [OF m' b(2)]]]
  from t1 [THEN conjunct2, THEN conjunct1]
  have e1: "errorMessage (generateResult False no_encoder_env loaded_photo_avif)
       = ''This browser cannot export AVIF yet. Try Chrome 120+ or pick WEBP/JPEG.''"
    by (simp add: selectedFormat_examples)
  from t2 [THEN conjunct2, THEN conjunct1]
  have e2: "errorMessage (generateResult False no_encoder_env loaded_photo_resize)
       = ''Browser could not encode the requested format.''"
    by (simp add: selectedFormat_examples)
  from f(1) m b(1) e1 t1 [THEN conjunct2, THEN conjunct2, THEN conjunct1]
    t1 [THEN conjunct2, THEN conjunct2, THEN conjunct2] e2
  show ?thesis
    by (intro conjI)
qed

end
